theory Spec2Isabelle
  imports Main "HOL-Library.Word" "HOL-Library.Sublist"
begin

section \<open>Strings of the host language\<close>

text \<open>
  A string of the program is a sequence of 16-bit code units. Literals of the source are
  written with \<open>lit\<close>, which maps each ASCII character to its code unit.
\<close>

type_synonym cunit = "16 word"
type_synonym jsstr = "cunit list"

definition lit :: "string \<Rightarrow> jsstr" where
  "lit s = map (\<lambda>c. of_nat (of_char c)) s"

text \<open>
  \<open>String.prototype.trim\<close> removes the code units of the WhiteSpace and LineTerminator
  productions from both ends: TAB, LF, VT, FF, CR, SPACE, NBSP, U+1680, U+2000..U+200A,
  U+2028, U+2029, U+202F, U+205F, U+3000 and U+FEFF.
\<close>

definition isWhiteSpace :: "cunit \<Rightarrow> bool" where
  "isWhiteSpace c \<longleftrightarrow>
     c = 0x09 \<or> c = 0x0A \<or> c = 0x0B \<or> c = 0x0C \<or> c = 0x0D \<or> c = 0x20 \<or> c = 0xA0 \<or>
     c = 0x1680 \<or> (0x2000 \<le> c \<and> c \<le> 0x200A) \<or> c = 0x2028 \<or> c = 0x2029 \<or>
     c = 0x202F \<or> c = 0x205F \<or> c = 0x3000 \<or> c = 0xFEFF"

definition trimStart :: "jsstr \<Rightarrow> jsstr" where
  "trimStart s = dropWhile isWhiteSpace s"

definition trimEnd :: "jsstr \<Rightarrow> jsstr" where
  "trimEnd s = rev (dropWhile isWhiteSpace (rev s))"

definition trim :: "jsstr \<Rightarrow> jsstr" where
  "trim s = trimEnd (trimStart s)"

section \<open>Numbers of the host language\<close>

text \<open>
  A number is an IEEE 754 binary64 value. A finite value is kept as sign, mantissa and
  binary exponent, \<open>Dbl neg m e\<close> standing for \<open>(-1)^neg * m * 2^e\<close> with \<open>m \<ge> 0\<close>; the
  values that \<open>Number\<close> returns are in canonical form (mantissa below \<open>2^53\<close>, exponent
  between \<open>-1074\<close> and \<open>971\<close>, mantissa at least \<open>2^52\<close> unless the exponent is \<open>-1074\<close>).
  The arithmetic is exact integer arithmetic.
\<close>

datatype jsnum = NaN | Inf bool | Dbl bool int int

text \<open>The number of digits of \<open>n\<close> in base \<open>b\<close>.\<close>

function digitCount :: "int \<Rightarrow> int \<Rightarrow> nat" where
  "digitCount b n = (if n \<le> 0 \<or> b < 2 then 0 else Suc (digitCount b (n div b)))"
  by pat_completeness auto
termination
proof (relation "measure (\<lambda>(b, n). nat n)")
  fix b n :: int
  assume a: "\<not> (n \<le> 0 \<or> b < 2)"
  then have "n div b < n" by (simp add: int_div_less_self)
  with a show "((b, n div b), (b, n)) \<in> measure (\<lambda>(b, n). nat n)" by simp
qed simp

declare digitCount.simps [simp del]

text \<open>Rounding half to even of the positive fraction \<open>p / q\<close> to an integer.\<close>

definition roundHalfEven :: "int \<Rightarrow> int \<Rightarrow> int" where
  "roundHalfEven p q =
     (let f = p div q; r = p mod q
      in if 2 * r < q then f else if q < 2 * r then f + 1 else if even f then f else f + 1)"

text \<open>\<open>fracGePow b p q d\<close>: the fraction \<open>p / q\<close> is at least \<open>b^d\<close>.\<close>

definition fracGePow :: "int \<Rightarrow> int \<Rightarrow> int \<Rightarrow> int \<Rightarrow> bool" where
  "fracGePow b p q d = (if 0 \<le> d then b ^ nat d * q \<le> p else q \<le> p * b ^ nat (- d))"

text \<open>
  The number value of the fraction \<open>p / q\<close> (\<open>p \<ge> 0\<close>, \<open>q > 0\<close>): round to the nearest
  binary64 value, ties to even, overflow to infinity, underflow to zero.
\<close>

definition roundFrac :: "bool \<Rightarrow> int \<Rightarrow> int \<Rightarrow> jsnum" where
  "roundFrac neg p q =
     (if p \<le> 0 then Dbl neg 0 0
      else
        let d = int (digitCount 2 p) - int (digitCount 2 q);
            e = (if fracGePow 2 p q d then d else d - 1);
            sh = max (e - 52) (- 1074);
            m = (if 0 \<le> sh then roundHalfEven p (q * 2 ^ nat sh)
                 else roundHalfEven (p * 2 ^ nat (- sh)) q);
            m' = (if m = 2 ^ 53 then 2 ^ 52 else m);
            sh' = (if m = 2 ^ 53 then sh + 1 else sh)
        in if m' = 0 then Dbl neg 0 0
           else if 971 < sh' then Inf neg
           else Dbl neg m' sh')"

text \<open>The number value of \<open>m * 10^e\<close>.\<close>

definition roundDecimal :: "bool \<Rightarrow> int \<Rightarrow> int \<Rightarrow> jsnum" where
  "roundDecimal neg m e =
     (if 0 \<le> e then roundFrac neg (m * 10 ^ nat e) 1 else roundFrac neg m (10 ^ nat (- e)))"

subsection \<open>\<open>Number(text)\<close>: the grammar of StringNumericLiteral\<close>

definition isDigit :: "cunit \<Rightarrow> bool" where
  "isDigit c \<longleftrightarrow> 0x30 \<le> c \<and> c \<le> 0x39"

definition isHexDigit :: "cunit \<Rightarrow> bool" where
  "isHexDigit c \<longleftrightarrow> isDigit c \<or> (0x41 \<le> c \<and> c \<le> 0x46) \<or> (0x61 \<le> c \<and> c \<le> 0x66)"

definition isOctalDigit :: "cunit \<Rightarrow> bool" where
  "isOctalDigit c \<longleftrightarrow> 0x30 \<le> c \<and> c \<le> 0x37"

definition isBinaryDigit :: "cunit \<Rightarrow> bool" where
  "isBinaryDigit c \<longleftrightarrow> c = 0x30 \<or> c = 0x31"

definition digitVal :: "cunit \<Rightarrow> int" where
  "digitVal c =
     (if isDigit c then uint c - 0x30
      else if 0x41 \<le> c \<and> c \<le> 0x46 then uint c - 0x41 + 10
      else uint c - 0x61 + 10)"

definition digitsValue :: "int \<Rightarrow> jsstr \<Rightarrow> int" where
  "digitsValue b ds = foldl (\<lambda>a c. b * a + digitVal c) 0 ds"

text \<open>DecimalDigits: a non-empty run of decimal digits.\<close>

definition isDecimalDigits :: "jsstr \<Rightarrow> bool" where
  "isDecimalDigits ds \<longleftrightarrow> ds \<noteq> [] \<and> list_all isDigit ds"

text \<open>SignedInteger, the part of an exponent after \<open>e\<close> or \<open>E\<close>.\<close>

definition signedInteger :: "jsstr \<Rightarrow> int option" where
  "signedInteger r =
     (case r of
        [] \<Rightarrow> None
      | c # ds \<Rightarrow>
          if c = 0x2B then (if isDecimalDigits ds then Some (digitsValue 10 ds) else None)
          else if c = 0x2D then (if isDecimalDigits ds then Some (- digitsValue 10 ds) else None)
          else if isDecimalDigits r then Some (digitsValue 10 r) else None)"

text \<open>An optional ExponentPart; the empty text is the exponent 0.\<close>

definition exponentPart :: "jsstr \<Rightarrow> int option" where
  "exponentPart r =
     (case r of
        [] \<Rightarrow> Some 0
      | c # ds \<Rightarrow> if c = 0x65 \<or> c = 0x45 then signedInteger ds else None)"

text \<open>The mathematical value of a literal: infinity, or \<open>m * 10^e\<close>.\<close>

datatype mathValue = MVInfinity | MVDecimal int int

text \<open>
  StrUnsignedDecimalLiteral: \<open>Infinity\<close>, or digits with an optional fraction and an
  optional exponent, at least one digit before or after the point.
\<close>

definition strUnsignedDecimalLiteral :: "jsstr \<Rightarrow> mathValue option" where
  "strUnsignedDecimalLiteral s =
     (if s = lit ''Infinity'' then Some MVInfinity
      else
        let ip = takeWhile isDigit s;
            r1 = dropWhile isDigit s;
            hasDot = (r1 \<noteq> [] \<and> hd r1 = 0x2E);
            fp = (if hasDot then takeWhile isDigit (tl r1) else []);
            r2 = (if hasDot then dropWhile isDigit (tl r1) else r1)
        in if ip = [] \<and> fp = [] then None
           else (case exponentPart r2 of
                   None \<Rightarrow> None
                 | Some ex \<Rightarrow> Some (MVDecimal (digitsValue 10 (ip @ fp)) (ex - int (length fp)))))"

text \<open>StrDecimalLiteral: an optional sign \<open>+\<close> or \<open>-\<close>, then the unsigned literal.\<close>

definition strDecimalLiteral :: "jsstr \<Rightarrow> (bool \<times> mathValue) option" where
  "strDecimalLiteral s =
     (case s of
        [] \<Rightarrow> None
      | c # r \<Rightarrow>
          if c = 0x2B then map_option (Pair False) (strUnsignedDecimalLiteral r)
          else if c = 0x2D then map_option (Pair True) (strUnsignedDecimalLiteral r)
          else map_option (Pair False) (strUnsignedDecimalLiteral s))"

text \<open>NonDecimalIntegerLiteral: \<open>0x\<close>, \<open>0o\<close> or \<open>0b\<close> (either case) and digits, no sign.\<close>

definition nonDecimalIntegerLiteral :: "jsstr \<Rightarrow> int option" where
  "nonDecimalIntegerLiteral s =
     (case s of
        z # p # ds \<Rightarrow>
          if z \<noteq> 0x30 \<or> ds = [] then None
          else if (p = 0x78 \<or> p = 0x58) \<and> list_all isHexDigit ds then Some (digitsValue 16 ds)
          else if (p = 0x6F \<or> p = 0x4F) \<and> list_all isOctalDigit ds then Some (digitsValue 8 ds)
          else if (p = 0x62 \<or> p = 0x42) \<and> list_all isBinaryDigit ds then Some (digitsValue 2 ds)
          else None
      | _ \<Rightarrow> None)"

text \<open>
  \<open>Number(s)\<close> for a string \<open>s\<close>: white space is trimmed, the empty text is \<open>+0\<close>, a text
  outside the grammar is \<open>NaN\<close>, and a literal is rounded to the nearest binary64 value.
\<close>

fun literalNumber :: "(bool \<times> mathValue) option \<Rightarrow> int option \<Rightarrow> jsnum" where
  "literalNumber (Some (neg, MVInfinity)) nd = Inf neg"
| "literalNumber (Some (neg, MVDecimal m e)) nd = roundDecimal neg m e"
| "literalNumber None (Some n) = roundFrac False n 1"
| "literalNumber None None = NaN"

definition jsNumber :: "jsstr \<Rightarrow> jsnum" where
  "jsNumber s =
     (let t = trim s
      in if t = [] then Dbl False 0 0
         else literalNumber (strDecimalLiteral t) (nonDecimalIntegerLiteral t))"

definition isNaN :: "jsnum \<Rightarrow> bool" where
  "isNaN x \<longleftrightarrow> x = NaN"

subsection \<open>\<open>String(number)\<close>: the shortest decimal text that reads back as the number\<close>

function decimalDigits :: "int \<Rightarrow> jsstr" where
  "decimalDigits n =
     (if n < 10 then [of_int (0x30 + n)] else decimalDigits (n div 10) @ [of_int (0x30 + n mod 10)])"
  by pat_completeness auto
termination
  by (relation "measure nat") (auto simp: int_div_less_self)

declare decimalDigits.simps [simp del]

text \<open>
  For the positive value \<open>p / q\<close> in the decade \<open>10^(n-1) \<le> p / q < 10^n\<close> and a digit
  count \<open>k\<close>: the \<open>k\<close>-digit integers \<open>s\<close> next to \<open>p / q / 10^(n-k)\<close> below and above, kept
  when \<open>s * 10^(n-k)\<close> reads back as \<open>target\<close>; of two, the closer one, and the even one
  at equal distance. The result is the pair \<open>(s, n)\<close>.
\<close>

definition digitCandidate :: "jsnum \<Rightarrow> int \<Rightarrow> int \<Rightarrow> int \<Rightarrow> nat \<Rightarrow> (int \<times> int) option" where
  "digitCandidate target p q n k =
     (let sc = n - int k;
          P = (if 0 \<le> sc then p else p * 10 ^ nat (- sc));
          Q = (if 0 \<le> sc then q * 10 ^ nat sc else q);
          lo = P div Q;
          r = P mod Q;
          hi = (if r = 0 then lo else lo + 1);
          hiS = (if hi = 10 ^ k then 10 ^ (k - 1) else hi);
          hiN = (if hi = 10 ^ k then n + 1 else n);
          okLo = (roundDecimal False lo sc = target);
          okHi = (roundDecimal False hiS (hiN - int k) = target)
      in if okLo \<and> okHi then
           (if 2 * r < Q \<or> (2 * r = Q \<and> even lo) then Some (lo, n) else Some (hiS, hiN))
         else if okLo then Some (lo, n)
         else if okHi then Some (hiS, hiN)
         else None)"

fun shortestFrom :: "nat \<Rightarrow> jsnum \<Rightarrow> int \<Rightarrow> int \<Rightarrow> int \<Rightarrow> nat \<Rightarrow> int \<times> int" where
  "shortestFrom 0 target p q n k = (p * 10 ^ nat (int k - n) div (q * 10 ^ nat (n - int k)), n)"
| "shortestFrom (Suc fuel) target p q n k =
     (case digitCandidate target p q n k of
        Some res \<Rightarrow> res
      | None \<Rightarrow> shortestFrom fuel target p q n (Suc k))"

text \<open>
  The integers \<open>s\<close> and \<open>n\<close> of Number::toString for the positive canonical value
  \<open>m * 2^e\<close>: the fewest digits first (17 always suffice).
\<close>

definition shortestDigits :: "int \<Rightarrow> int \<Rightarrow> int \<times> int" where
  "shortestDigits m e =
     (let p = (if 0 \<le> e then m * 2 ^ nat e else m);
          q = (if 0 \<le> e then 1 else 2 ^ nat (- e));
          d = int (digitCount 10 p) - int (digitCount 10 q);
          n = (if fracGePow 10 p q d then d + 1 else d)
      in shortestFrom 17 (Dbl False m e) p q n 1)"

text \<open>The layout of Number::toString for the digits of \<open>s\<close> and the decimal position \<open>n\<close>.\<close>

definition formatDigits :: "int \<times> int \<Rightarrow> jsstr" where
  "formatDigits sn =
     (let ds = decimalDigits (fst sn);
          k = int (length ds);
          n = snd sn
      in if - 5 \<le> n \<and> n \<le> 21 then
           (if k \<le> n then ds @ replicate (nat (n - k)) 0x30
            else if 0 < n then take (nat n) ds @ 0x2E # drop (nat n) ds
            else lit ''0.'' @ replicate (nat (- n)) 0x30 @ ds)
         else
           (let ex = n - 1;
                sgn = (if 0 \<le> ex then 0x2B else 0x2D);
                exds = decimalDigits \<bar>ex\<bar>
            in if k = 1 then ds @ 0x65 # sgn # exds
               else hd ds # 0x2E # tl ds @ 0x65 # sgn # exds))"

text \<open>The canonical form of a finite value: the binary64 value nearest to it.\<close>

fun canonical :: "jsnum \<Rightarrow> jsnum" where
  "canonical NaN = NaN"
| "canonical (Inf neg) = Inf neg"
| "canonical (Dbl neg m e) =
     roundFrac neg (if 0 \<le> e then m * 2 ^ nat e else m) (if 0 \<le> e then 1 else 2 ^ nat (- e))"

fun numberToString :: "jsnum \<Rightarrow> jsstr" where
  "numberToString NaN = lit ''NaN''"
| "numberToString (Inf neg) = (if neg then lit ''-Infinity'' else lit ''Infinity'')"
| "numberToString (Dbl neg m e) =
     (if m \<le> 0 then lit ''0''
      else (if neg then lit ''-'' else []) @ formatDigits (shortestDigits m e))"

text \<open>\<open>String(x)\<close> for a number \<open>x\<close>.\<close>

definition jsToString :: "jsnum \<Rightarrow> jsstr" where
  "jsToString x = numberToString (canonical x)"

text \<open>
  A number used as a column index: the comparisons \<open>c < 0\<close> and \<open>c \<ge> row.length\<close>, and the
  element that the property read \<open>row[c]\<close> finds (none unless \<open>c\<close> is a non-negative
  integer below the length; the read then yields \<open>undefined\<close>).
\<close>

definition numLessZero :: "jsnum \<Rightarrow> bool" where
  "numLessZero c = (case c of NaN \<Rightarrow> False | Inf neg \<Rightarrow> neg | Dbl neg m e \<Rightarrow> neg \<and> 0 < m)"

definition numGeLength :: "jsnum \<Rightarrow> nat \<Rightarrow> bool" where
  "numGeLength c n =
     (case c of
        NaN \<Rightarrow> False
      | Inf neg \<Rightarrow> \<not> neg
      | Dbl neg m e \<Rightarrow>
          if neg \<and> 0 < m then False
          else if 0 \<le> e then int n \<le> m * 2 ^ nat e
          else int n * 2 ^ nat (- e) \<le> m)"

definition arrayIndex :: "jsnum \<Rightarrow> nat option" where
  "arrayIndex c =
     (case c of
        Dbl neg m e \<Rightarrow>
          if neg \<and> 0 < m then None
          else if 0 \<le> e then Some (nat (m * 2 ^ nat e))
          else if m mod 2 ^ nat (- e) = 0 then Some (nat (m div 2 ^ nat (- e)))
          else None
      | _ \<Rightarrow> None)"

definition numOfInt :: "int \<Rightarrow> jsnum" where
  "numOfInt i = Dbl (i < 0) \<bar>i\<bar> 0"

section \<open>The table and the typed cleaning actions\<close>

type_synonym row = "jsstr list"
type_synonym table = "row list"

datatype cleaningMode = DropRow | PadWithEmpty

datatype coerceOnError = OnErrorDropRow | SetNull | SetZero

datatype cleaningAction =
    TRIM_WHITESPACE
  | STRIP_WRAPPING_QUOTES
  | ENSURE_EQUAL_COLUMNS cleaningMode
  | REMOVE_EMPTY_ROWS
  | COERCE_NUMERIC jsnum coerceOnError

record applyActionsResult =
  rows :: table
  rowsChanged :: nat
  rowsDropped :: nat

text \<open>
  The only exception of the engine is the TypeError of calling a method of \<open>undefined\<close> or
  reading a property of \<open>null\<close> or \<open>undefined\<close>. A computation that may throw returns
  \<open>Inl TypeError\<close>; \<open>bindResult\<close> runs the rest of a computation unless it has thrown.
\<close>

datatype jsError = TypeError

fun bindResult :: "jsError + 'a \<Rightarrow> ('a \<Rightarrow> jsError + 'b) \<Rightarrow> jsError + 'b" where
  "bindResult (Inl err) f = Inl err"
| "bindResult (Inr x) f = f x"

subsection \<open>TRIM_WHITESPACE\<close>

definition trimChanged :: "table \<Rightarrow> nat" where
  "trimChanged t = sum_list (map (\<lambda>row. length (filter (\<lambda>cell. trim cell \<noteq> cell) row)) t)"

definition trimWhitespace :: "table \<Rightarrow> table" where
  "trimWhitespace t = map (map trim) t"

subsection \<open>STRIP_WRAPPING_QUOTES\<close>

definition isWrapped :: "jsstr \<Rightarrow> bool" where
  "isWrapped cell =
     (let trimmed = trim cell
      in 2 \<le> length trimmed \<and> hd trimmed = 0x22 \<and> last trimmed = 0x22)"

definition stripCell :: "jsstr \<Rightarrow> jsstr" where
  "stripCell cell = (if isWrapped cell then butlast (tl (trim cell)) else cell)"

definition stripChanged :: "table \<Rightarrow> nat" where
  "stripChanged t = sum_list (map (\<lambda>row. length (filter isWrapped row)) t)"

definition stripWrappingQuotes :: "table \<Rightarrow> table" where
  "stripWrappingQuotes t = map (map stripCell) t"

subsection \<open>ENSURE_EQUAL_COLUMNS\<close>

text \<open>The column count of the current first row, 0 for the empty table.\<close>

fun expectedColumns :: "table \<Rightarrow> nat" where
  "expectedColumns [] = 0"
| "expectedColumns (first # rest) = length first"

text \<open>
  The loop over the rows; the result is the new table with the numbers of rows changed
  and of rows dropped. Padding appends empty cells until the row has the expected length.
\<close>

fun equalizeRows :: "cleaningMode \<Rightarrow> nat \<Rightarrow> table \<Rightarrow> table \<times> nat \<times> nat" where
  "equalizeRows mode expected [] = ([], 0, 0)"
| "equalizeRows mode expected (row # rest) =
     (case equalizeRows mode expected rest of
        (newRows, ch, dr) \<Rightarrow>
          if length row = expected then (row # newRows, ch, dr)
          else if mode = PadWithEmpty \<and> length row < expected
            then ((row @ replicate (expected - length row) []) # newRows, Suc ch, dr)
          else if mode = DropRow then (newRows, ch, Suc dr)
          else (take expected row # newRows, Suc ch, dr))"

subsection \<open>REMOVE_EMPTY_ROWS\<close>

definition rowIsEmpty :: "row \<Rightarrow> bool" where
  "rowIsEmpty row =
     (let startCol = (if 1 < length row then 1 else 0);
          cellsToCheck = drop startCol row
      in list_all (\<lambda>cell. length (trim cell) = 0) cellsToCheck)"

fun removeEmptyFrom :: "bool \<Rightarrow> nat \<Rightarrow> table \<Rightarrow> table \<times> nat" where
  "removeEmptyFrom hasHeader rowIndex [] = ([], 0)"
| "removeEmptyFrom hasHeader rowIndex (row # rest) =
     (case removeEmptyFrom hasHeader (Suc rowIndex) rest of
        (newRows, dr) \<Rightarrow>
          if hasHeader \<and> rowIndex = 0 then (row # newRows, dr)
          else if rowIsEmpty row then (newRows, Suc dr)
          else (row # newRows, dr))"

subsection \<open>COERCE_NUMERIC\<close>

text \<open>
  The body of the loop for one row. The rows of a table are distinct arrays (the parser
  and every action build one array per row), so the write \<open>row[c] = v\<close> is the update of
  that row alone. \<open>elementIndex row c\<close> is the position that the read \<open>row[c]\<close> finds, and
  \<open>None\<close> when it yields \<open>undefined\<close>, whose \<open>trim\<close> call throws.
\<close>

datatype rowOutcome = Kept row | Rewritten row | Dropped | Threw

fun inRange :: "row \<Rightarrow> nat option \<Rightarrow> nat option" where
  "inRange row None = None"
| "inRange row (Some i) = (if i < length row then Some i else None)"

definition elementIndex :: "row \<Rightarrow> jsnum \<Rightarrow> nat option" where
  "elementIndex row c = inRange row (arrayIndex c)"

fun onErrorOutcome :: "coerceOnError \<Rightarrow> row \<Rightarrow> nat \<Rightarrow> rowOutcome" where
  "onErrorOutcome OnErrorDropRow row i = Dropped"
| "onErrorOutcome SetNull row i = Rewritten (row[i := []])"
| "onErrorOutcome SetZero row i = Rewritten (row[i := lit ''0''])"

fun coerceCell :: "coerceOnError \<Rightarrow> row \<Rightarrow> nat option \<Rightarrow> rowOutcome" where
  "coerceCell onError row None = Threw"
| "coerceCell onError row (Some i) =
     (let val = row ! i;
          trimmed = trim val
      in if length trimmed = 0 then Kept row
         else
           let num = jsNumber trimmed
           in if isNaN num then onErrorOutcome onError row i
              else if jsToString num \<noteq> val then Rewritten (row[i := jsToString num])
              else Kept row)"

definition coerceRow :: "jsnum \<Rightarrow> coerceOnError \<Rightarrow> row \<Rightarrow> rowOutcome" where
  "coerceRow c onError row =
     (if numLessZero c \<or> numGeLength c (length row) then Kept row
      else coerceCell onError row (elementIndex row c))"

text \<open>
  The loop over the data rows. A dropped row is spliced out and the index stays, so the
  loop visits every row once, in order; the first row that throws ends the pass.
\<close>

fun addOutcome ::
  "rowOutcome \<Rightarrow> jsError + table \<times> nat \<times> nat \<Rightarrow> jsError + table \<times> nat \<times> nat" where
  "addOutcome Threw rest = Inl TypeError"
| "addOutcome outcome (Inl err) = Inl err"
| "addOutcome (Kept r) (Inr (newRows, ch, dr)) = Inr (r # newRows, ch, dr)"
| "addOutcome (Rewritten r) (Inr (newRows, ch, dr)) = Inr (r # newRows, Suc ch, dr)"
| "addOutcome Dropped (Inr (newRows, ch, dr)) = Inr (newRows, ch, Suc dr)"

fun coerceRows :: "jsnum \<Rightarrow> coerceOnError \<Rightarrow> table \<Rightarrow> jsError + table \<times> nat \<times> nat" where
  "coerceRows c onError [] = Inr ([], 0, 0)"
| "coerceRows c onError (row # rest) =
     addOutcome (coerceRow c onError row) (coerceRows c onError rest)"

subsection \<open>The interpreter\<close>

fun applyAction ::
  "bool \<Rightarrow> cleaningAction \<Rightarrow> applyActionsResult \<Rightarrow> jsError + applyActionsResult" where
  "applyAction hasHeader TRIM_WHITESPACE st =
     Inr (st\<lparr>rows := trimWhitespace (rows st),
            rowsChanged := rowsChanged st + trimChanged (rows st)\<rparr>)"
| "applyAction hasHeader STRIP_WRAPPING_QUOTES st =
     Inr (st\<lparr>rows := stripWrappingQuotes (rows st),
            rowsChanged := rowsChanged st + stripChanged (rows st)\<rparr>)"
| "applyAction hasHeader (ENSURE_EQUAL_COLUMNS mode) st =
     (case equalizeRows mode (expectedColumns (rows st)) (rows st) of
        (newRows, ch, dr) \<Rightarrow>
          Inr \<lparr>rows = newRows, rowsChanged = rowsChanged st + ch,
               rowsDropped = rowsDropped st + dr\<rparr>)"
| "applyAction hasHeader REMOVE_EMPTY_ROWS st =
     (case removeEmptyFrom hasHeader 0 (rows st) of
        (newRows, dr) \<Rightarrow> Inr (st\<lparr>rows := newRows, rowsDropped := rowsDropped st + dr\<rparr>))"
| "applyAction hasHeader (COERCE_NUMERIC c onError) st =
     (let startIndex = (if hasHeader then 1 else 0)
      in bindResult (coerceRows c onError (drop startIndex (rows st)))
           (\<lambda>(newRows, ch, dr).
              Inr \<lparr>rows = take startIndex (rows st) @ newRows,
                   rowsChanged = rowsChanged st + ch,
                   rowsDropped = rowsDropped st + dr\<rparr>))"

fun runActions ::
  "bool \<Rightarrow> cleaningAction list \<Rightarrow> applyActionsResult \<Rightarrow> jsError + applyActionsResult" where
  "runActions hasHeader [] st = Inr st"
| "runActions hasHeader (action # actions) st =
     bindResult (applyAction hasHeader action st) (runActions hasHeader actions)"

definition applyActions ::
  "table \<Rightarrow> cleaningAction list \<Rightarrow> bool \<Rightarrow> jsError + applyActionsResult" where
  "applyActions t actions hasHeader =
     runActions hasHeader actions \<lparr>rows = t, rowsChanged = 0, rowsDropped = 0\<rparr>"

text \<open>The fixed plan that \<open>cleanCsv\<close> runs before the advisor is asked.\<close>

definition preCleanActions :: "cleaningAction list" where
  "preCleanActions =
     [STRIP_WRAPPING_QUOTES, TRIM_WHITESPACE, REMOVE_EMPTY_ROWS, ENSURE_EQUAL_COLUMNS PadWithEmpty]"

text \<open>
  The interpreter as invariant (3) of the specification words it: the column count of the
  first row is recorded once, when the pass starts, and every ENSURE_EQUAL_COLUMNS of the
  pass uses the recorded count. Every other action is the one of \<open>applyAction\<close>.
\<close>

fun applyActionRecorded ::
  "nat \<Rightarrow> bool \<Rightarrow> cleaningAction \<Rightarrow> applyActionsResult \<Rightarrow> jsError + applyActionsResult" where
  "applyActionRecorded recorded hasHeader (ENSURE_EQUAL_COLUMNS mode) st =
     (case equalizeRows mode recorded (rows st) of
        (newRows, ch, dr) \<Rightarrow>
          Inr \<lparr>rows = newRows, rowsChanged = rowsChanged st + ch,
               rowsDropped = rowsDropped st + dr\<rparr>)"
| "applyActionRecorded recorded hasHeader action st = applyAction hasHeader action st"

fun runActionsRecorded ::
  "nat \<Rightarrow> bool \<Rightarrow> cleaningAction list \<Rightarrow> applyActionsResult
     \<Rightarrow> jsError + applyActionsResult" where
  "runActionsRecorded recorded hasHeader [] st = Inr st"
| "runActionsRecorded recorded hasHeader (action # actions) st =
     bindResult (applyActionRecorded recorded hasHeader action st)
       (runActionsRecorded recorded hasHeader actions)"

definition applyActionsRecorded ::
  "table \<Rightarrow> cleaningAction list \<Rightarrow> bool \<Rightarrow> jsError + applyActionsResult" where
  "applyActionsRecorded t actions hasHeader =
     runActionsRecorded (expectedColumns t) hasHeader actions
       \<lparr>rows = t, rowsChanged = 0, rowsDropped = 0\<rparr>"

section \<open>The sampler\<close>

text \<open>
  \<open>csv.split(/\r?\n/)\<close>, the line rule that \<open>buildSample\<close> and \<open>parseCsv\<close> share: scanning
  from the left, a CR directly followed by LF, or else an LF, ends a line.
\<close>

fun consChar :: "cunit \<Rightarrow> jsstr list \<Rightarrow> jsstr list" where
  "consChar c [] = [[c]]"
| "consChar c (line # lines) = (c # line) # lines"

fun splitLines :: "jsstr \<Rightarrow> jsstr list" where
  "splitLines [] = [[]]"
| "splitLines [c] = (if c = 0x0A then [[], []] else [[c]])"
| "splitLines (c # d # cs) =
     (if c = 0x0D \<and> d = 0x0A then [] # splitLines cs
      else if c = 0x0A then [] # splitLines (d # cs)
      else consChar c (splitLines (d # cs)))"

text \<open>\<open>lines.join('\n')\<close>.\<close>

fun joinLines :: "jsstr list \<Rightarrow> jsstr" where
  "joinLines [] = []"
| "joinLines [line] = line"
| "joinLines (line # next # lines) = line @ 0x0A # joinLines (next # lines)"

definition buildSample :: "jsstr \<Rightarrow> nat \<Rightarrow> jsstr" where
  "buildSample csv maxLines = joinLines (take maxLines (splitLines csv))"

section \<open>The action normalizer\<close>

text \<open>
  The values an advisor reply can hold after \<open>JSON.parse\<close>, with \<open>undefined\<close>. An object is
  the list of its own properties; a property of the names read here (\<open>type\<close>, \<open>mode\<close>,
  \<open>onError\<close>, \<open>columnIndex\<close>, \<open>column_index\<close>) is \<open>undefined\<close> on a boolean, a number, a
  string or an array, and reading any property of \<open>null\<close> or \<open>undefined\<close> throws.
\<close>

datatype jsval =
    JUndefined
  | JNull
  | JBool bool
  | JNum jsnum
  | JStr jsstr
  | JArr "jsval list"
  | JObj "(jsstr \<times> jsval) list"

fun valueOr :: "jsval option \<Rightarrow> jsval" where
  "valueOr None = JUndefined"
| "valueOr (Some v) = v"

fun getProp :: "jsval \<Rightarrow> jsstr \<Rightarrow> jsError + jsval" where
  "getProp JUndefined name = Inl TypeError"
| "getProp JNull name = Inl TypeError"
| "getProp (JObj props) name = Inr (valueOr (map_of props name))"
| "getProp v name = Inr JUndefined"

text \<open>\<open>mapToCleaningActions\<close>: one step of the loop, for one candidate whose \<open>type\<close> has
  been read. The result is the action pushed, if any.\<close>

definition coerceOnErrorOf :: "jsval \<Rightarrow> coerceOnError" where
  "coerceOnErrorOf rawOnError =
     (if rawOnError = JStr (lit ''set-null'') then SetNull
      else if rawOnError = JStr (lit ''set-zero'') then SetZero
      else OnErrorDropRow)"

fun coerceCandidate :: "jsval \<Rightarrow> jsval \<Rightarrow> jsError + cleaningAction option" where
  "coerceCandidate a (JNum c) =
     bindResult (getProp a (lit ''onError''))
       (\<lambda>rawOnError. Inr (Some (COERCE_NUMERIC c (coerceOnErrorOf rawOnError))))"
| "coerceCandidate a v = Inr None"

fun typedCandidate :: "jsval \<Rightarrow> jsval \<Rightarrow> jsError + cleaningAction option" where
  "typedCandidate a (JStr ty) =
     (if ty = lit ''TRIM_WHITESPACE'' then Inr (Some TRIM_WHITESPACE)
      else if ty = lit ''STRIP_WRAPPING_QUOTES'' then Inr (Some STRIP_WRAPPING_QUOTES)
      else if ty = lit ''ENSURE_EQUAL_COLUMNS'' then
        bindResult (getProp a (lit ''mode''))
          (\<lambda>mode. Inr (Some (ENSURE_EQUAL_COLUMNS
             (if mode = JStr (lit ''pad-with-empty'') then PadWithEmpty else DropRow))))
      else if ty = lit ''REMOVE_EMPTY_ROWS'' then Inr (Some REMOVE_EMPTY_ROWS)
      else if ty = lit ''COERCE_NUMERIC'' then
        bindResult (getProp a (lit ''columnIndex'')) (coerceCandidate a)
      else Inr None)"
| "typedCandidate a v = Inr None"

definition normalizeCandidate :: "jsval \<Rightarrow> jsError + cleaningAction option" where
  "normalizeCandidate a = bindResult (getProp a (lit ''type'')) (typedCandidate a)"

fun pushAction :: "cleaningAction option \<Rightarrow> cleaningAction list \<Rightarrow> cleaningAction list" where
  "pushAction None actions = actions"
| "pushAction (Some action) actions = action # actions"

fun mapToCleaningActions :: "jsval list \<Rightarrow> jsError + cleaningAction list" where
  "mapToCleaningActions [] = Inr []"
| "mapToCleaningActions (a # rawActions) =
     bindResult (normalizeCandidate a)
       (\<lambda>pushed. bindResult (mapToCleaningActions rawActions)
          (\<lambda>actions. Inr (pushAction pushed actions)))"

text \<open>
  \<open>analyzeCsv\<close> turns each action of the advisor's reply into an object with the fields
  \<open>type\<close> and \<open>columnIndex\<close>, reading the index from \<open>column_index\<close> first and from
  \<open>columnIndex\<close> next; \<open>cleanCsv\<close> passes these objects to \<open>mapToCleaningActions\<close>.
\<close>

fun typeText :: "jsval \<Rightarrow> jsstr" where
  "typeText (JStr s) = s"
| "typeText (JNum n) = jsToString n"
| "typeText (JBool b) = (if b then lit ''true'' else lit ''false'')"
| "typeText v = lit ''unknown''"

fun isNumber :: "jsval \<Rightarrow> bool" where
  "isNumber (JNum n) = True"
| "isNumber v = False"

definition toAnalyzeCsvAction :: "jsval \<Rightarrow> jsError + jsval" where
  "toAnalyzeCsvAction a =
     bindResult (getProp a (lit ''type''))
       (\<lambda>ty. bindResult (getProp a (lit ''column_index''))
          (\<lambda>snake. bindResult (getProp a (lit ''columnIndex''))
             (\<lambda>camel. Inr (JObj [(lit ''type'', JStr (typeText ty)),
                                 (lit ''columnIndex'',
                                  if isNumber snake then snake
                                  else if isNumber camel then camel
                                  else JUndefined)]))))"

fun analyzeActions :: "jsval list \<Rightarrow> jsError + jsval list" where
  "analyzeActions [] = Inr []"
| "analyzeActions (a # rawActions) =
     bindResult (toAnalyzeCsvAction a)
       (\<lambda>action. bindResult (analyzeActions rawActions) (\<lambda>actions. Inr (action # actions)))"

definition aiCleaningActions :: "jsval list \<Rightarrow> jsError + cleaningAction list" where
  "aiCleaningActions rawActions = bindResult (analyzeActions rawActions) mapToCleaningActions"

section \<open>Notions used to state the properties\<close>

text \<open>
  What an action does to the cells of a row that it keeps: TRIM_WHITESPACE and
  STRIP_WRAPPING_QUOTES rewrite every cell of every row, the three other actions keep or
  remove rows and leave the header alone.
\<close>

fun headerRewrite :: "cleaningAction \<Rightarrow> row \<Rightarrow> row" where
  "headerRewrite TRIM_WHITESPACE h = map trim h"
| "headerRewrite STRIP_WRAPPING_QUOTES h = map stripCell h"
| "headerRewrite action h = h"

text \<open>
  A COERCE_NUMERIC action whose column index is an integer, the index of a column or a
  number outside every row. (An index with a fractional part, or NaN, reads \<open>undefined\<close>
  from a row and the pass throws.)
\<close>

fun integerColumn :: "cleaningAction \<Rightarrow> bool" where
  "integerColumn (COERCE_NUMERIC (Dbl neg m e) onError) = (e = 0 \<and> 0 \<le> m \<and> (neg \<longrightarrow> 0 < m))"
| "integerColumn (COERCE_NUMERIC c onError) = False"
| "integerColumn action = True"

text \<open>
  \<open>skipsRow k r\<close>: the COERCE_NUMERIC loop for column \<open>k\<close> passes over the row \<open>r\<close>, because
  the column is out of bounds or the cell is empty after trimming. \<open>withoutColumn k r\<close> is
  the row \<open>r\<close> with the cell of column \<open>k\<close> blanked: two rows agree outside column \<open>k\<close>
  when their images are equal.
\<close>

definition skipsRow :: "int \<Rightarrow> row \<Rightarrow> bool" where
  "skipsRow k r \<longleftrightarrow> k < 0 \<or> int (length r) \<le> k \<or> length (trim (r ! nat k)) = 0"

definition withoutColumn :: "int \<Rightarrow> row \<Rightarrow> row" where
  "withoutColumn k r = (if 0 \<le> k then r[nat k := []] else r)"

text \<open>\<open>hasCRLF s\<close>: the text holds a CR directly followed by an LF.\<close>

fun hasCRLF :: "jsstr \<Rightarrow> bool" where
  "hasCRLF (c # d # cs) = ((c = 0x0D \<and> d = 0x0A) \<or> hasCRLF (d # cs))"
| "hasCRLF cs = False"

text \<open>The characters of the text of a finite number: digits, point, \<open>e\<close> and signs.\<close>

definition plainChar :: "cunit \<Rightarrow> bool" where
  "plainChar c \<longleftrightarrow> isDigit c \<or> c = 0x2E \<or> c = 0x65 \<or> c = 0x2B \<or> c = 0x2D"


text \<open>
  The three conditions under which the fixed plan finds nothing to do: no cell is wrapped
  in double quotes, no data row is a row that REMOVE_EMPTY_ROWS removes, and no cell has
  white space at an end.
\<close>

definition noWrappedCell :: "table \<Rightarrow> bool" where
  "noWrappedCell t \<longleftrightarrow> list_all (list_all (\<lambda>cell. \<not> isWrapped cell)) t"

definition noEmptyDataRow :: "bool \<Rightarrow> table \<Rightarrow> bool" where
  "noEmptyDataRow hasHeader t \<longleftrightarrow>
     list_all (\<lambda>row. \<not> rowIsEmpty row) (drop (if hasHeader then 1 else 0) t)"

definition trimmedCells :: "table \<Rightarrow> bool" where
  "trimmedCells t \<longleftrightarrow> (\<forall>r\<in>set t. \<forall>c\<in>set r. trim c = c)"

text \<open>
  The texts that are numbers, written as a grammar. An unsigned decimal text is
  \<open>Infinity\<close>, or decimal digits with an optional fraction (a point and digits) and an
  optional exponent, with at least one digit before or after the point: \<open>5\<close>, \<open>5.\<close>, \<open>.5\<close>
  and \<open>1.5e3\<close>, but not \<open>.\<close> alone. An exponent is \<open>e\<close> or \<open>E\<close>, an optional sign and at
  least one digit. A numeric text is an unsigned decimal text, or one with \<open>+\<close> or \<open>-\<close> in
  front, or \<open>0x\<close>, \<open>0o\<close> or \<open>0b\<close> (the letter in either case) with at least one digit of
  base 16, 8 or 2 and no sign.
\<close>

definition exponentText :: "jsstr \<Rightarrow> bool" where
  "exponentText x \<longleftrightarrow>
     (\<exists>c sg ds. x = c # sg @ ds \<and> (c = 0x65 \<or> c = 0x45) \<and>
        (sg = [] \<or> sg = [0x2B] \<or> sg = [0x2D]) \<and> ds \<noteq> [] \<and> list_all isDigit ds)"

definition unsignedDecimalText :: "jsstr \<Rightarrow> bool" where
  "unsignedDecimalText u \<longleftrightarrow>
     u = lit ''Infinity'' \<or>
     (\<exists>ip fp x. u = ip @ fp @ x \<and> list_all isDigit ip \<and>
        (fp = [] \<and> ip \<noteq> [] \<or>
         (\<exists>fd. fp = 0x2E # fd \<and> list_all isDigit fd \<and> (ip \<noteq> [] \<or> fd \<noteq> []))) \<and>
        (x = [] \<or> exponentText x))"

definition nonDecimalText :: "jsstr \<Rightarrow> bool" where
  "nonDecimalText t \<longleftrightarrow>
     (\<exists>p ds. t = 0x30 # p # ds \<and> ds \<noteq> [] \<and>
        ((p = 0x78 \<or> p = 0x58) \<and> list_all isHexDigit ds \<or>
         (p = 0x6F \<or> p = 0x4F) \<and> list_all isOctalDigit ds \<or>
         (p = 0x62 \<or> p = 0x42) \<and> list_all isBinaryDigit ds))"

definition numericText :: "jsstr \<Rightarrow> bool" where
  "numericText t \<longleftrightarrow>
     unsignedDecimalText t \<or>
     (\<exists>u. (t = 0x2B # u \<or> t = 0x2D # u) \<and> unsignedDecimalText u) \<or>
     nonDecimalText t"

text \<open>
  The characters of numeric texts: the ASCII digits and letters, the signs and the point.
\<close>

definition numericChar :: "cunit \<Rightarrow> bool" where
  "numericChar c \<longleftrightarrow>
     isDigit c \<or> (0x41 \<le> c \<and> c \<le> 0x5A) \<or> (0x61 \<le> c \<and> c \<le> 0x7A) \<or>
     c = 0x2B \<or> c = 0x2D \<or> c = 0x2E"

text \<open>
  COERCE_NUMERIC as the specification words it, with the grammar as the parse: what the
  action makes of one data row for the column \<open>k\<close>, and whether the row counts as changed
  or as dropped. A row that is passed over stays. A cell whose trimmed text is numeric
  becomes the canonical text of its number, which counts as a change when it differs from
  the cell. For every other cell \<open>onError\<close> applies: the row is removed and counts as
  dropped, or the cell becomes empty or \<open>0\<close> and the row counts as changed.
\<close>

fun onErrorRows :: "coerceOnError \<Rightarrow> row \<Rightarrow> nat \<Rightarrow> row list" where
  "onErrorRows OnErrorDropRow r i = []"
| "onErrorRows SetNull r i = [r[i := []]]"
| "onErrorRows SetZero r i = [r[i := lit ''0'']]"

definition coerceRule :: "int \<Rightarrow> coerceOnError \<Rightarrow> row \<Rightarrow> row list" where
  "coerceRule k onError r =
     (if skipsRow k r then [r]
      else if numericText (trim (r ! nat k))
        then [r[nat k := jsToString (jsNumber (trim (r ! nat k)))]]
      else onErrorRows onError r (nat k))"

definition coerceRuleChanged :: "int \<Rightarrow> coerceOnError \<Rightarrow> row \<Rightarrow> bool" where
  "coerceRuleChanged k onError r \<longleftrightarrow>
     \<not> skipsRow k r \<and>
     (if numericText (trim (r ! nat k))
      then jsToString (jsNumber (trim (r ! nat k))) \<noteq> r ! nat k
      else onError \<noteq> OnErrorDropRow)"

definition coerceRuleDropped :: "int \<Rightarrow> coerceOnError \<Rightarrow> row \<Rightarrow> bool" where
  "coerceRuleDropped k onError r \<longleftrightarrow>
     \<not> skipsRow k r \<and> \<not> numericText (trim (r ! nat k)) \<and> onError = OnErrorDropRow"
section \<open>Auxiliary facts\<close>

subsection \<open>Results, column equalization, empty rows, the header\<close>

lemma bindResult_Inr_iff: "bindResult r f = Inr y \<longleftrightarrow> (\<exists>x. r = Inr x \<and> f x = Inr y)"
  by (cases r) auto

lemma bindResult_Inl_iff: "bindResult r f = Inl e \<longleftrightarrow> r = Inl e \<or> (\<exists>x. r = Inr x \<and> f x = Inl e)"
  by (cases r) auto

lemma equalizeRows_pad_rows:
  "fst (equalizeRows PadWithEmpty n t) =
     map (\<lambda>r. if length r < n then r @ replicate (n - length r) [] else take n r) t"
  by (induction t) (auto split: prod.splits)

lemma equalizeRows_pad_dropped: "snd (snd (equalizeRows PadWithEmpty n t)) = 0"
  by (induction t) (auto split: prod.splits)

lemma equalizeRows_head:
  "fst (equalizeRows mode (length h) (h # rest)) = h # fst (equalizeRows mode (length h) rest)"
  by (auto split: prod.splits)

lemma equalizeRows_pad_length:
  "r \<in> set (fst (equalizeRows PadWithEmpty n t)) \<Longrightarrow> length r = n"
  by (induction t) (auto split: prod.splits if_splits)

lemma removeEmptyFrom_Suc:
  "removeEmptyFrom hasHeader (Suc i) t =
     (filter (\<lambda>r. \<not> rowIsEmpty r) t, length (filter rowIsEmpty t))"
  by (induction t arbitrary: i) (auto split: prod.splits)

lemma removeEmptyFrom_zero:
  "removeEmptyFrom hasHeader 0 t =
     (take (if hasHeader then 1 else 0) t @
        filter (\<lambda>r. \<not> rowIsEmpty r) (drop (if hasHeader then 1 else 0) t),
      length (filter rowIsEmpty (drop (if hasHeader then 1 else 0) t)))"
  by (cases t) (auto simp: removeEmptyFrom_Suc)

lemma applyAction_header:
  assumes "applyAction True a st = Inr st'" and "rows st = h # rest"
  shows "\<exists>rest'. rows st' = headerRewrite a h # rest'"
proof (cases a)
  case TRIM_WHITESPACE
  then show ?thesis using assms by (auto simp: trimWhitespace_def)
next
  case STRIP_WRAPPING_QUOTES
  then show ?thesis using assms by (auto simp: stripWrappingQuotes_def)
next
  case (ENSURE_EQUAL_COLUMNS mode)
  then show ?thesis using assms by (auto split: prod.splits if_splits)
next
  case REMOVE_EMPTY_ROWS
  then show ?thesis using assms by (auto simp: removeEmptyFrom_Suc)
next
  case (COERCE_NUMERIC c onError)
  then show ?thesis using assms by (auto simp: bindResult_Inr_iff)
qed

lemma applyAction_empty:
  assumes "applyAction hasHeader a st = Inr st'" and "rows st = []"
  shows "rows st' = []"
  using assms by (cases a) (auto simp: trimWhitespace_def stripWrappingQuotes_def)

lemma length_headerRewrite [simp]: "length (headerRewrite a h) = length h"
  by (cases a) auto

lemma applyAction_expected:
  assumes "applyAction True a st = Inr st'"
  shows "expectedColumns (rows st') = expectedColumns (rows st)"
proof (cases "rows st")
  case Nil
  then show ?thesis using applyAction_empty[OF assms] by simp
next
  case (Cons h rest)
  then show ?thesis using applyAction_header[OF assms Cons] by auto
qed

lemma applyActionRecorded_same:
  "applyActionRecorded (expectedColumns (rows st)) hasHeader a st = applyAction hasHeader a st"
  by (cases a) auto

lemma runActionsRecorded_same:
  "runActionsRecorded (expectedColumns (rows st)) True actions st = runActions True actions st"
proof (induction actions arbitrary: st)
  case Nil
  then show ?case by simp
next
  case (Cons a actions)
  show ?case
  proof (cases "applyAction True a st")
    case (Inl err)
    then show ?thesis by (simp add: applyActionRecorded_same)
  next
    case (Inr st')
    have "runActionsRecorded (expectedColumns (rows st')) True actions st' = runActions True actions st'"
      by (rule Cons.IH)
    then show ?thesis using Inr applyAction_expected[OF Inr] by (simp add: applyActionRecorded_same)
  qed
qed

subsection \<open>Trimming\<close>

lemma trimStart_id: "s = [] \<or> \<not> isWhiteSpace (hd s) \<Longrightarrow> trimStart s = s"
  by (cases s) (auto simp: trimStart_def)

lemma trimEnd_id: "s = [] \<or> \<not> isWhiteSpace (last s) \<Longrightarrow> trimEnd s = s"
  by (cases s rule: rev_cases) (auto simp: trimEnd_def)

lemma last_dropWhile: "dropWhile P xs \<noteq> [] \<Longrightarrow> last (dropWhile P xs) = last xs"
  by (induction xs) auto

lemma trimEnd_hd: "trimEnd s \<noteq> [] \<Longrightarrow> hd (trimEnd s) = hd s"
proof -
  assume a: "trimEnd s \<noteq> []"
  then have n: "dropWhile isWhiteSpace (rev s) \<noteq> []" by (simp add: trimEnd_def)
  have "hd (trimEnd s) = last (dropWhile isWhiteSpace (rev s))"
    using n by (simp add: trimEnd_def hd_rev)
  also have "\<dots> = last (rev s)" using n by (rule last_dropWhile)
  also have "\<dots> = hd s" using n by (cases s) (auto simp: last_rev)
  finally show ?thesis .
qed

lemma trimEnd_last: "trimEnd s \<noteq> [] \<Longrightarrow> \<not> isWhiteSpace (last (trimEnd s))"
proof -
  assume a: "trimEnd s \<noteq> []"
  then have n: "dropWhile isWhiteSpace (rev s) \<noteq> []" by (simp add: trimEnd_def)
  have "last (trimEnd s) = hd (dropWhile isWhiteSpace (rev s))"
    using n by (simp add: trimEnd_def last_rev)
  then show ?thesis using hd_dropWhile[OF n] by simp
qed

lemma trim_ends:
  assumes "trim s \<noteq> []"
  shows "\<not> isWhiteSpace (hd (trim s))" and "\<not> isWhiteSpace (last (trim s))"
proof -
  have n: "trimStart s \<noteq> []" using assms by (auto simp: trim_def trimEnd_def)
  have "hd (trim s) = hd (trimStart s)" using assms unfolding trim_def by (rule trimEnd_hd)
  then show "\<not> isWhiteSpace (hd (trim s))"
    using n hd_dropWhile[of isWhiteSpace s] by (simp add: trimStart_def)
  show "\<not> isWhiteSpace (last (trim s))" using assms unfolding trim_def by (rule trimEnd_last)
qed

lemma trim_id: "s = [] \<or> (\<not> isWhiteSpace (hd s) \<and> \<not> isWhiteSpace (last s)) \<Longrightarrow> trim s = s"
  by (auto simp: trim_def trimStart_id trimEnd_id)

lemma trim_Nil [simp]: "trim [] = []"
  by (simp add: trim_id)

lemma trim_idem [simp]: "trim (trim s) = trim s"
  using trim_ends[of s] by (intro trim_id) auto

lemma trim_id_all: "list_all (\<lambda>c. \<not> isWhiteSpace c) s \<Longrightarrow> trim s = s"
proof (cases s)
  case (Cons c cs)
  assume "list_all (\<lambda>c. \<not> isWhiteSpace c) s"
  then have "\<forall>x \<in> set s. \<not> isWhiteSpace x" by (simp add: list_all_iff)
  then have "\<not> isWhiteSpace (hd s) \<and> \<not> isWhiteSpace (last s)" using Cons by auto
  then show ?thesis by (simp add: trim_id)
qed simp

lemma jsNumber_trim [simp]: "jsNumber (trim s) = jsNumber s"
  by (simp add: jsNumber_def)

subsection \<open>The COERCE_NUMERIC loop at an integer column\<close>

lemma numLessZero_numOfInt [simp]: "numLessZero (numOfInt k) = (k < 0)"
  by (auto simp: numLessZero_def numOfInt_def)

lemma numGeLength_numOfInt [simp]: "0 \<le> k \<Longrightarrow> numGeLength (numOfInt k) n = (int n \<le> k)"
  by (auto simp: numGeLength_def numOfInt_def)

lemma arrayIndex_numOfInt [simp]: "0 \<le> k \<Longrightarrow> arrayIndex (numOfInt k) = Some (nat k)"
  by (auto simp: arrayIndex_def numOfInt_def)

lemma coerceRow_numOfInt:
  "coerceRow (numOfInt k) onError r =
     (if k < 0 \<or> int (length r) \<le> k then Kept r else coerceCell onError r (Some (nat k)))"
  by (auto simp: coerceRow_def elementIndex_def)

lemma integerColumn_numOfInt:
  "integerColumn (COERCE_NUMERIC c onError) \<Longrightarrow> \<exists>k. c = numOfInt k"
proof (cases c)
  case (Dbl neg m e)
  assume "integerColumn (COERCE_NUMERIC c onError)"
  with Dbl have "c = numOfInt (if neg then - m else m)"
    by (auto simp: numOfInt_def)
  then show ?thesis by blast
qed auto

lemma coerceCell_Some:
  "coerceCell onError r (Some i) = Kept r \<or>
   (\<exists>v. coerceCell onError r (Some i) = Rewritten (r[i := v])) \<or>
   (coerceCell onError r (Some i) = Dropped \<and> onError = OnErrorDropRow)"
  by (cases onError) (auto simp: Let_def)

lemma coerceCell_skip:
  "length (trim (r ! i)) = 0 \<Longrightarrow> coerceCell onError r (Some i) = Kept r"
  by simp

lemma coerceRow_cases:
  "coerceRow (numOfInt k) onError r = Kept r \<or>
   (0 \<le> k \<and> nat k < length r \<and> \<not> skipsRow k r \<and>
      (\<exists>v. coerceRow (numOfInt k) onError r = Rewritten (r[nat k := v]))) \<or>
   (coerceRow (numOfInt k) onError r = Dropped \<and> onError = OnErrorDropRow \<and> \<not> skipsRow k r)"
proof (cases "k < 0 \<or> int (length r) \<le> k")
  case True
  then show ?thesis by (simp add: coerceRow_numOfInt)
next
  case False
  show ?thesis
  proof (cases "length (trim (r ! nat k)) = 0")
    case True
    then show ?thesis using False by (simp add: coerceRow_numOfInt)
  next
    case nonblank: False
    have s: "\<not> skipsRow k r" using False nonblank by (simp add: skipsRow_def)
    have b: "0 \<le> k \<and> nat k < length r" using False by auto
    show ?thesis
      using coerceCell_Some[of onError r "nat k"] False s b
      by (auto simp: coerceRow_numOfInt simp del: coerceCell.simps)
  qed
qed

lemma coerceRow_skipped:
  "skipsRow k r \<Longrightarrow> coerceRow (numOfInt k) onError r = Kept r"
  by (auto simp: coerceRow_numOfInt skipsRow_def)

lemma withoutColumn_update [simp]:
  "0 \<le> k \<Longrightarrow> withoutColumn k (r[nat k := v]) = withoutColumn k r"
  by (simp add: withoutColumn_def)

lemma coerceRows_numOfInt:
  "\<exists>out ch dr. coerceRows (numOfInt k) onError t = Inr (out, ch, dr) \<and>
     subseq (map (withoutColumn k) out) (map (withoutColumn k) t) \<and>
     subseq (filter (skipsRow k) t) out \<and>
     ch + dr \<le> length (filter (\<lambda>r. \<not> skipsRow k r) t) \<and>
     (onError \<noteq> OnErrorDropRow \<longrightarrow> dr = 0 \<and> map (withoutColumn k) out = map (withoutColumn k) t)"
proof (induction t)
  case Nil
  then show ?case by simp
next
  case (Cons r t)
  then obtain out ch dr where ih:
    "coerceRows (numOfInt k) onError t = Inr (out, ch, dr)"
    "subseq (map (withoutColumn k) out) (map (withoutColumn k) t)"
    "subseq (filter (skipsRow k) t) out"
    "ch + dr \<le> length (filter (\<lambda>r. \<not> skipsRow k r) t)"
    "onError \<noteq> OnErrorDropRow \<longrightarrow> dr = 0 \<and> map (withoutColumn k) out = map (withoutColumn k) t"
    by blast
  consider (kept) "coerceRow (numOfInt k) onError r = Kept r"
    | (rewritten) v where "0 \<le> k" "nat k < length r" "\<not> skipsRow k r"
        "coerceRow (numOfInt k) onError r = Rewritten (r[nat k := v])"
    | (dropped) "coerceRow (numOfInt k) onError r = Dropped" "onError = OnErrorDropRow" "\<not> skipsRow k r"
    using coerceRow_cases[of k onError r] by blast
  then show ?case
  proof cases
    case kept
    then show ?thesis using ih by (auto intro: list_emb_Cons)
  next
    case rewritten
    then show ?thesis using ih by (auto intro: list_emb_Cons)
  next
    case dropped
    then show ?thesis using ih by (auto intro: list_emb_Cons)
  qed
qed

lemma coerce_action_result:
  "\<exists>out ch dr.
     coerceRows (numOfInt k) onError (drop (if hasHeader then 1 else 0) (rows st)) = Inr (out, ch, dr) \<and>
     applyAction hasHeader (COERCE_NUMERIC (numOfInt k) onError) st =
       Inr \<lparr>rows = take (if hasHeader then 1 else 0) (rows st) @ out,
            rowsChanged = rowsChanged st + ch, rowsDropped = rowsDropped st + dr\<rparr>"
proof -
  obtain out ch dr where
    "coerceRows (numOfInt k) onError (drop (if hasHeader then 1 else 0) (rows st)) = Inr (out, ch, dr)"
    using coerceRows_numOfInt[of k onError "drop (if hasHeader then 1 else 0) (rows st)"] by blast
  then show ?thesis by (simp add: Let_def)
qed

lemma take_drop_data:
  assumes "drop s t = [] \<longrightarrow> out = []"
  shows "take s (take s t @ out) = take s t" and "drop s (take s t @ out) = out"
proof -
  show "take s (take s t @ out) = take s t"
  proof (cases "s \<le> length t")
    case True then show ?thesis by simp
  next
    case False then show ?thesis using assms by simp
  qed
  show "drop s (take s t @ out) = out"
  proof (cases "s \<le> length t")
    case True then show ?thesis by simp
  next
    case False then show ?thesis using assms by simp
  qed
qed

lemma coerceRows_Nil_out:
  "coerceRows c onError t = Inr (out, ch, dr) \<Longrightarrow> t = [] \<Longrightarrow> out = []"
  by simp

lemma applyAction_total:
  assumes "integerColumn a"
  shows "\<exists>st'. applyAction hasHeader a st = Inr st'"
proof (cases a)
  case (COERCE_NUMERIC c onError)
  then obtain k where "c = numOfInt k" using assms integerColumn_numOfInt by blast
  then show ?thesis using COERCE_NUMERIC coerce_action_result[of k onError hasHeader st] by blast
qed (auto split: prod.splits)

lemma runActions_total:
  "list_all integerColumn actions \<Longrightarrow> \<exists>res. runActions hasHeader actions st = Inr res"
proof (induction actions arbitrary: st)
  case Nil
  then show ?case by simp
next
  case (Cons a actions)
  then obtain st' where "applyAction hasHeader a st = Inr st'"
    using applyAction_total[of a hasHeader st] by auto
  then show ?case using Cons by simp
qed

lemma runActions_header:
  "runActions True actions st = Inr res \<Longrightarrow> rows st = h # rest \<Longrightarrow>
     \<exists>rest'. rows res = fold headerRewrite actions h # rest'"
proof (induction actions arbitrary: st h rest)
  case Nil
  then show ?case by simp
next
  case (Cons a actions)
  from Cons.prems(1) obtain st' where s: "applyAction True a st = Inr st'"
    and r: "runActions True actions st' = Inr res"
    by (auto simp: bindResult_Inr_iff)
  obtain rest' where "rows st' = headerRewrite a h # rest'"
    using applyAction_header[OF s Cons.prems(2)] by blast
  then show ?case using Cons.IH[OF r] by simp
qed

lemma fold_headerRewrite_id:
  "TRIM_WHITESPACE \<notin> set actions \<Longrightarrow> STRIP_WRAPPING_QUOTES \<notin> set actions \<Longrightarrow>
     fold headerRewrite actions h = h"
proof (induction actions)
  case Nil
  then show ?case by simp
next
  case (Cons a actions)
  then show ?case by (cases a) auto
qed

subsection \<open>Lines of a text\<close>

lemma splitLines_nonempty [simp]: "splitLines s \<noteq> []"
proof (induction s rule: splitLines.induct)
  case (3 c d cs)
  then show ?case by (cases "splitLines (d # cs)") auto
qed auto

lemma joinLines_consChar: "ls \<noteq> [] \<Longrightarrow> joinLines (consChar c ls) = c # joinLines ls"
proof (cases ls)
  case (Cons l rest)
  then show ?thesis by (cases rest) auto
qed simp

lemma joinLines_Cons: "ls \<noteq> [] \<Longrightarrow> joinLines (l # ls) = l @ 0x0A # joinLines ls"
  by (cases ls) auto

lemma joinLines_splitLines: "\<not> hasCRLF s \<Longrightarrow> joinLines (splitLines s) = s"
proof (induction s rule: splitLines.induct)
  case 1
  then show ?case by simp
next
  case (2 c)
  then show ?case by simp
next
  case (3 c d cs)
  then show ?case by (auto simp: joinLines_consChar joinLines_Cons)
qed

lemma prefix_joinLines_take: "prefix (joinLines (take n ls)) (joinLines ls)"
proof (induction ls arbitrary: n rule: joinLines.induct)
  case 1
  then show ?case by simp
next
  case (2 line)
  then show ?case by (cases n) auto
next
  case (3 line nxt lines)
  show ?case
  proof (cases n)
    case 0
    then show ?thesis by simp
  next
    case (Suc m)
    show ?thesis
    proof (cases m)
      case 0
      then show ?thesis using Suc by simp
    next
      case (Suc m')
      have "prefix (joinLines (take m (nxt # lines))) (joinLines (nxt # lines))"
        by (rule 3)
      then show ?thesis using \<open>n = Suc m\<close> Suc by simp
    qed
  qed
qed

lemma splitLines_LF: "splitLines (0x0A # s) = [] # splitLines s"
  by (cases s) auto

lemma splitLines_plain:
  "c \<noteq> 0x0A \<Longrightarrow> \<not> (c = 0x0D \<and> s \<noteq> [] \<and> hd s = 0x0A) \<Longrightarrow>
     splitLines (c # s) = consChar c (splitLines s)"
  by (cases s) auto

lemma take_consChar: "0 < n \<Longrightarrow> ls \<noteq> [] \<Longrightarrow> take n (consChar c ls) = consChar c (take n ls)"
  by (cases ls; cases n) auto

lemma splitLines_joinLines_take:
  "\<not> hasCRLF s \<Longrightarrow> 0 < n \<Longrightarrow>
     splitLines (joinLines (take n (splitLines s))) = take n (splitLines s)"
proof (induction s arbitrary: n rule: splitLines.induct)
  case 1
  then show ?case by (cases n) auto
next
  case (2 c)
  then show ?case by (cases n; cases "n - 1") auto
next
  case (3 c d cs)
  from "3.prems" have nocr: "\<not> (c = 0x0D \<and> d = 0x0A)" and rest: "\<not> hasCRLF (d # cs)"
    by auto
  define L where "L = splitLines (d # cs)"
  have Lne: "L \<noteq> []" by (simp add: L_def)
  show ?case
  proof (cases "c = 0x0A")
    case True
    obtain m where n: "n = Suc m" using "3.prems"(2) by (cases n) auto
    show ?thesis
    proof (cases m)
      case 0
      have sl: "splitLines (c # d # cs) = [] # L"
        using True by (simp add: L_def)
      show ?thesis unfolding sl n 0 by simp
    next
      case (Suc m')
      have ih: "splitLines (joinLines (take m L)) = take m L"
        unfolding L_def using "3.IH"(2)[of m] nocr True rest Suc by simp
      have tne: "take m L \<noteq> []" using Lne Suc by (cases L) auto
      have sl: "splitLines (c # d # cs) = [] # L"
        using True by (simp add: L_def)
      have tk: "take n (splitLines (c # d # cs)) = [] # take m L"
        unfolding sl n by simp
      have "splitLines (joinLines (take n (splitLines (c # d # cs)))) =
            splitLines (0x0A # joinLines (take m L))"
        unfolding tk using joinLines_Cons[OF tne, of "[]"] by simp
      also have "\<dots> = [] # take m L" by (simp add: splitLines_LF ih)
      finally show ?thesis unfolding tk .
    qed
  next
    case False
    have ih: "splitLines (joinLines (take n L)) = take n L"
      unfolding L_def using "3.IH"(3)[of n] nocr False rest "3.prems"(2) by simp
    have tne: "take n L \<noteq> []" using Lne "3.prems"(2) by (cases L; cases n) auto
    have pre: "prefix (joinLines (take n L)) (d # cs)"
      using prefix_joinLines_take[of n L] joinLines_splitLines[OF rest] by (simp add: L_def)
    have hdX: "joinLines (take n L) \<noteq> [] \<Longrightarrow> hd (joinLines (take n L)) = d"
      using pre by (cases "joinLines (take n L)") auto
    have sl: "splitLines (c # d # cs) = consChar c L"
      using False nocr by (auto simp: L_def)
    have t1: "take n (consChar c L) = consChar c (take n L)"
      using "3.prems"(2) Lne by (rule take_consChar)
    have j1: "joinLines (consChar c (take n L)) = c # joinLines (take n L)"
      using tne by (rule joinLines_consChar)
    have "splitLines (joinLines (take n (splitLines (c # d # cs)))) =
          splitLines (c # joinLines (take n L))"
      unfolding sl t1 j1 ..
    also have "\<dots> = consChar c (splitLines (joinLines (take n L)))"
      using False nocr hdX by (intro splitLines_plain) auto
    also have "\<dots> = take n (splitLines (c # d # cs))"
      unfolding sl t1 ih ..
    finally show ?thesis .
  qed
qed

subsection \<open>Numbers and their texts\<close>

lemma isDigit_not_ws: "isDigit c \<Longrightarrow> \<not> isWhiteSpace c"
  unfolding isDigit_def isWhiteSpace_def
  by (auto simp: word_le_nat_alt)

lemma decimalDigit_isDigit: "0 \<le> n \<Longrightarrow> n < 10 \<Longrightarrow> isDigit (of_int (0x30 + n))"
proof -
  assume a: "0 \<le> n" "n < 10"
  have t: "take_bit 16 (48 + n) = 48 + n"
    using a by (intro take_bit_int_eq_self) auto
  have u: "uint (word_of_int (48 + n) :: cunit) = 48 + n"
    using t uint_word_of_int_eq[of "48 + n", where 'a = 16]
    by (simp only: len_bit0 len_num1 mult_1_right semiring_norm)
  have v: "(word_of_int (48 + n) :: cunit) = 48 + word_of_int n" by simp
  show ?thesis unfolding isDigit_def word_le_def using a u v by simp
qed

lemma decimalDigits_digits:
  "0 \<le> n \<Longrightarrow> decimalDigits n \<noteq> [] \<and> list_all isDigit (decimalDigits n)"
proof (induction n rule: decimalDigits.induct)
  case (1 n)
  show ?case
  proof (cases "n < 10")
    case True
    then have eq: "decimalDigits n = [of_int (0x30 + n)]"
      by (subst decimalDigits.simps) simp
    show ?thesis unfolding eq using decimalDigit_isDigit[of n] True "1.prems" by simp
  next
    case False
    have "0 \<le> n div 10" using "1.prems" by simp
    then have ih: "decimalDigits (n div 10) \<noteq> [] \<and> list_all isDigit (decimalDigits (n div 10))"
      using "1.IH" False by simp
    have "isDigit (of_int (0x30 + n mod 10))" by (rule decimalDigit_isDigit) auto
    then have "list_all isDigit [of_int (0x30 + n mod 10)]" by simp
    moreover have eq: "decimalDigits n = decimalDigits (n div 10) @ [of_int (0x30 + n mod 10)]"
      using False by (subst decimalDigits.simps) simp
    ultimately show ?thesis using ih by (simp only: list_all_append append_is_Nil_conv) simp
  qed
qed

lemma roundFrac_not_NaN [simp]: "roundFrac neg p q \<noteq> NaN"
  by (simp add: roundFrac_def Let_def)

lemma roundDecimal_not_NaN [simp]: "roundDecimal neg m e \<noteq> NaN"
  by (simp add: roundDecimal_def)

lemma literalNumber_Some [simp]: "literalNumber (Some v) nd \<noteq> NaN"
proof (cases v)
  case (Pair neg mv)
  then show ?thesis by (cases mv) auto
qed

lemma canonical_not_NaN: "x \<noteq> NaN \<Longrightarrow> canonical x \<noteq> NaN"
  by (cases x) auto

lemma digitCandidate_nonneg:
  "0 \<le> p \<Longrightarrow> 0 < q \<Longrightarrow> digitCandidate target p q n k = Some sn \<Longrightarrow> 0 \<le> fst sn"
  unfolding digitCandidate_def Let_def
  by (auto split: if_splits simp: pos_imp_zdiv_nonneg_iff)

lemma shortestFrom_nonneg:
  "0 \<le> p \<Longrightarrow> 0 < q \<Longrightarrow> 0 \<le> fst (shortestFrom fuel target p q n k)"
proof (induction fuel arbitrary: k)
  case 0
  then show ?case by (simp add: pos_imp_zdiv_nonneg_iff)
next
  case (Suc fuel)
  show ?case
  proof (cases "digitCandidate target p q n k")
    case None
    then show ?thesis using Suc by simp
  next
    case (Some sn)
    then show ?thesis using digitCandidate_nonneg[OF Suc.prems Some] by simp
  qed
qed

lemma shortestDigits_nonneg: "0 < m \<Longrightarrow> 0 \<le> fst (shortestDigits m e)"
  unfolding shortestDigits_def Let_def
  by (rule shortestFrom_nonneg) auto

lemma takeWhile_digits:
  "list_all isDigit ip \<Longrightarrow> r = [] \<or> \<not> isDigit (hd r) \<Longrightarrow> takeWhile isDigit (ip @ r) = ip"
  by (cases r) (auto simp: list_all_iff)

lemma dropWhile_digits:
  "list_all isDigit ip \<Longrightarrow> r = [] \<or> \<not> isDigit (hd r) \<Longrightarrow> dropWhile isDigit (ip @ r) = r"
  by (cases r) (auto simp: list_all_iff)

lemma digits_not_Infinity:
  "ip \<noteq> [] \<Longrightarrow> list_all isDigit ip \<Longrightarrow> ip @ r \<noteq> lit ''Infinity''"
  by (cases ip) (auto simp: lit_def isDigit_def)

lemma signedInteger_signed:
  "sg = 0x2B \<or> sg = 0x2D \<Longrightarrow> isDecimalDigits ex \<Longrightarrow> signedInteger (sg # ex) \<noteq> None"
  by (auto simp: signedInteger_def)

lemma exponentPart_signed:
  "sg = 0x2B \<or> sg = 0x2D \<Longrightarrow> isDecimalDigits ex \<Longrightarrow>
     exponentPart (0x65 # sg # ex) \<noteq> None"
  using signedInteger_signed[of sg ex] by (simp add: exponentPart_def)

text \<open>The four shapes that Number::toString produces for a finite non-zero value.\<close>

lemma unsigned_integer:
  assumes "isDecimalDigits ip"
  shows "strUnsignedDecimalLiteral ip \<noteq> None"
proof -
  have d: "list_all isDigit ip" "ip \<noteq> []" using assms by (auto simp: isDecimalDigits_def)
  have t: "takeWhile isDigit ip = ip" "dropWhile isDigit ip = []"
    using takeWhile_digits[OF d(1), of "[]"] dropWhile_digits[OF d(1), of "[]"] by auto
  have i: "ip \<noteq> lit ''Infinity''" using digits_not_Infinity[OF d(2) d(1), of "[]"] by simp
  show ?thesis using d(2) by (simp add: strUnsignedDecimalLiteral_def i t exponentPart_def)
qed

lemma unsigned_fraction:
  assumes "isDecimalDigits ip" "list_all isDigit fp"
  shows "strUnsignedDecimalLiteral (ip @ 0x2E # fp) \<noteq> None"
proof -
  have d: "list_all isDigit ip" "ip \<noteq> []" using assms by (auto simp: isDecimalDigits_def)
  have nd: "\<not> isDigit 0x2E" by (simp add: isDigit_def)
  have t: "takeWhile isDigit (ip @ 0x2E # fp) = ip" "dropWhile isDigit (ip @ 0x2E # fp) = 0x2E # fp"
    using takeWhile_digits[OF d(1), of "0x2E # fp"] dropWhile_digits[OF d(1), of "0x2E # fp"] nd
    by auto
  have f: "takeWhile isDigit fp = fp" "dropWhile isDigit fp = []"
    using takeWhile_digits[OF assms(2), of "[]"] dropWhile_digits[OF assms(2), of "[]"] by auto
  have i: "ip @ 0x2E # fp \<noteq> lit ''Infinity''" by (rule digits_not_Infinity[OF d(2) d(1)])
  show ?thesis using d(2) by (simp add: strUnsignedDecimalLiteral_def i t f exponentPart_def)
qed

lemma unsigned_exponent:
  assumes "isDecimalDigits ip" "sg = 0x2B \<or> sg = 0x2D" "isDecimalDigits ex"
  shows "strUnsignedDecimalLiteral (ip @ 0x65 # sg # ex) \<noteq> None"
proof -
  have d: "list_all isDigit ip" "ip \<noteq> []" using assms by (auto simp: isDecimalDigits_def)
  have nd: "\<not> isDigit 0x65" by (simp add: isDigit_def)
  have t: "takeWhile isDigit (ip @ 0x65 # sg # ex) = ip"
          "dropWhile isDigit (ip @ 0x65 # sg # ex) = 0x65 # sg # ex"
    using takeWhile_digits[OF d(1), of "0x65 # sg # ex"]
          dropWhile_digits[OF d(1), of "0x65 # sg # ex"] nd
    by auto
  have i: "ip @ 0x65 # sg # ex \<noteq> lit ''Infinity''" by (rule digits_not_Infinity[OF d(2) d(1)])
  obtain x where x: "exponentPart (0x65 # sg # ex) = Some x"
    using exponentPart_signed[OF assms(2,3)] by auto
  show ?thesis using d(2) by (simp add: strUnsignedDecimalLiteral_def i t x)
qed

lemma unsigned_fraction_exponent:
  assumes "isDecimalDigits ip" "list_all isDigit fp" "sg = 0x2B \<or> sg = 0x2D" "isDecimalDigits ex"
  shows "strUnsignedDecimalLiteral (ip @ 0x2E # fp @ 0x65 # sg # ex) \<noteq> None"
proof -
  have d: "list_all isDigit ip" "ip \<noteq> []" using assms by (auto simp: isDecimalDigits_def)
  have nd: "\<not> isDigit 0x2E" "\<not> isDigit 0x65" by (simp_all add: isDigit_def)
  have t: "takeWhile isDigit (ip @ 0x2E # fp @ 0x65 # sg # ex) = ip"
          "dropWhile isDigit (ip @ 0x2E # fp @ 0x65 # sg # ex) = 0x2E # fp @ 0x65 # sg # ex"
    using takeWhile_digits[OF d(1), of "0x2E # fp @ 0x65 # sg # ex"]
          dropWhile_digits[OF d(1), of "0x2E # fp @ 0x65 # sg # ex"] nd
    by auto
  have f: "takeWhile isDigit (fp @ 0x65 # sg # ex) = fp"
          "dropWhile isDigit (fp @ 0x65 # sg # ex) = 0x65 # sg # ex"
    using takeWhile_digits[OF assms(2), of "0x65 # sg # ex"]
          dropWhile_digits[OF assms(2), of "0x65 # sg # ex"] nd
    by auto
  have i: "ip @ 0x2E # fp @ 0x65 # sg # ex \<noteq> lit ''Infinity''"
    by (rule digits_not_Infinity[OF d(2) d(1)])
  obtain x where x: "exponentPart (0x65 # sg # ex) = Some x"
    using exponentPart_signed[OF assms(3,4)] by auto
  show ?thesis using d(2) by (simp add: strUnsignedDecimalLiteral_def i t f x)
qed

lemma plainChar_not_ws: "plainChar c \<Longrightarrow> \<not> isWhiteSpace c"
  using isDigit_not_ws[of c] by (auto simp: plainChar_def isWhiteSpace_def)

lemma digits_plain: "list_all isDigit ds \<Longrightarrow> list_all plainChar ds"
  by (auto simp: list_all_iff plainChar_def)

lemma formatDigits_text:
  assumes "0 \<le> s"
  shows "strUnsignedDecimalLiteral (formatDigits (s, n)) \<noteq> None \<and>
         formatDigits (s, n) \<noteq> [] \<and> isDigit (hd (formatDigits (s, n))) \<and>
         list_all plainChar (formatDigits (s, n))"
proof -
  define ds where "ds = decimalDigits s"
  define k where "k = int (length ds)"
  have ne: "ds \<noteq> []" and dg: "list_all isDigit ds"
    using decimalDigits_digits[OF assms] by (auto simp: ds_def)
  have hdd: "isDigit (hd ds)" using ne dg by (cases ds) auto
  have pl: "list_all plainChar ds" using dg by (rule digits_plain)
  have z: "isDigit 0x30" by (simp add: isDigit_def)
  consider (A) "- 5 \<le> n" "n \<le> 21" "k \<le> n"
    | (B) "- 5 \<le> n" "n \<le> 21" "\<not> k \<le> n" "0 < n"
    | (C) "- 5 \<le> n" "n \<le> 21" "\<not> k \<le> n" "\<not> 0 < n"
    | (D) "\<not> (- 5 \<le> n \<and> n \<le> 21)" "k = 1"
    | (E) "\<not> (- 5 \<le> n \<and> n \<le> 21)" "k \<noteq> 1"
    by blast
  then show ?thesis
  proof cases
    case A
    have f: "formatDigits (s, n) = ds @ replicate (nat (n - k)) 0x30"
      using A by (simp add: formatDigits_def Let_def ds_def k_def)
    have d: "isDecimalDigits (ds @ replicate (nat (n - k)) 0x30)"
      using ne dg z by (auto simp: isDecimalDigits_def list_all_iff)
    show ?thesis unfolding f
      using unsigned_integer[OF d] ne hdd pl z
      by (auto simp: list_all_iff plainChar_def)
  next
    case B
    have f: "formatDigits (s, n) = take (nat n) ds @ 0x2E # drop (nat n) ds"
      using B by (simp add: formatDigits_def Let_def ds_def k_def)
    have tn: "take (nat n) ds \<noteq> []" using B ne by (cases ds) auto
    have d: "isDecimalDigits (take (nat n) ds)"
      using tn dg by (auto simp: isDecimalDigits_def list_all_iff dest: in_set_takeD)
    have g: "list_all isDigit (drop (nat n) ds)"
      using dg by (auto simp: list_all_iff dest: in_set_dropD)
    have h: "hd (take (nat n) ds) = hd ds" using tn by (cases ds; cases "nat n") auto
    have p: "list_all plainChar (take (nat n) ds @ 0x2E # drop (nat n) ds)"
      using pl by (auto simp: list_all_iff plainChar_def dest: in_set_takeD in_set_dropD)
    show ?thesis unfolding f
      using unsigned_fraction[OF d g] tn hdd h p by simp
  next
    case C
    have f: "formatDigits (s, n) = [0x30] @ 0x2E # (replicate (nat (- n)) 0x30 @ ds)"
      using C by (simp add: formatDigits_def Let_def ds_def k_def lit_def)
    have d: "isDecimalDigits [0x30]" using z by (simp add: isDecimalDigits_def)
    have g: "list_all isDigit (replicate (nat (- n)) 0x30 @ ds)"
      using dg z by (auto simp: list_all_iff)
    have p: "list_all plainChar ([0x30] @ 0x2E # (replicate (nat (- n)) 0x30 @ ds))"
      using pl z by (auto simp: list_all_iff plainChar_def)
    show ?thesis unfolding f
      using unsigned_fraction[OF d g] z p by simp
  next
    case D
    define sg :: cunit where "sg = (if 0 \<le> n - 1 then 0x2B else 0x2D)"
    define ex where "ex = decimalDigits \<bar>n - 1\<bar>"
    have f: "formatDigits (s, n) = ds @ 0x65 # sg # ex"
      using D by (auto simp add: formatDigits_def Let_def ds_def[symmetric] k_def[symmetric] sg_def ex_def)
    have sgs: "sg = 0x2B \<or> sg = 0x2D" by (simp add: sg_def)
    have exd: "isDecimalDigits ex"
      using decimalDigits_digits[of "\<bar>n - 1\<bar>"] by (simp add: ex_def isDecimalDigits_def)
    have d: "isDecimalDigits ds" using ne dg by (simp add: isDecimalDigits_def)
    have p: "list_all plainChar (ds @ 0x65 # sg # ex)"
      using pl sgs exd by (auto simp: list_all_iff plainChar_def isDecimalDigits_def)
    show ?thesis unfolding f
      using unsigned_exponent[OF d sgs exd] ne hdd p by simp
  next
    case E
    define sg :: cunit where "sg = (if 0 \<le> n - 1 then 0x2B else 0x2D)"
    define ex where "ex = decimalDigits \<bar>n - 1\<bar>"
    have f: "formatDigits (s, n) = [hd ds] @ 0x2E # tl ds @ 0x65 # sg # ex"
      using E by (auto simp add: formatDigits_def Let_def ds_def[symmetric] k_def[symmetric] sg_def ex_def)
    have sgs: "sg = 0x2B \<or> sg = 0x2D" by (simp add: sg_def)
    have exd: "isDecimalDigits ex"
      using decimalDigits_digits[of "\<bar>n - 1\<bar>"] by (simp add: ex_def isDecimalDigits_def)
    have d: "isDecimalDigits [hd ds]" using hdd by (simp add: isDecimalDigits_def)
    have g: "list_all isDigit (tl ds)" using dg by (cases ds) auto
    have p: "list_all plainChar ([hd ds] @ 0x2E # tl ds @ 0x65 # sg # ex)"
      using hdd g sgs exd by (auto simp: list_all_iff plainChar_def isDecimalDigits_def)
    show ?thesis unfolding f
      using unsigned_fraction_exponent[OF d g sgs exd] hdd p by simp
  qed
qed

lemma numberToString_finite:
  assumes "0 < m"
  shows "\<exists>F. numberToString (Dbl neg m e) = (if neg then [0x2D] else []) @ F \<and>
           strUnsignedDecimalLiteral F \<noteq> None \<and> F \<noteq> [] \<and> isDigit (hd F) \<and>
           list_all plainChar F"
proof -
  define sd where "sd = shortestDigits m e"
  have "0 \<le> fst sd" unfolding sd_def using assms by (rule shortestDigits_nonneg)
  then have "strUnsignedDecimalLiteral (formatDigits (fst sd, snd sd)) \<noteq> None \<and>
         formatDigits (fst sd, snd sd) \<noteq> [] \<and> isDigit (hd (formatDigits (fst sd, snd sd))) \<and>
         list_all plainChar (formatDigits (fst sd, snd sd))"
    by (rule formatDigits_text)
  moreover have "numberToString (Dbl neg m e) = (if neg then [0x2D] else []) @ formatDigits (fst sd, snd sd)"
    using assms by (simp add: sd_def lit_def)
  ultimately show ?thesis by blast
qed

lemma jsNumber_text:
  assumes "strUnsignedDecimalLiteral F \<noteq> None" "F \<noteq> []" "isDigit (hd F)" "list_all plainChar F"
  shows "jsNumber F \<noteq> NaN" and "jsNumber (0x2D # F) \<noteq> NaN"
proof -
  obtain c r where F: "F = c # r" using assms(2) by (cases F) auto
  have d: "isDigit c" using assms(3) F by simp
  have nw: "list_all (\<lambda>c. \<not> isWhiteSpace c) F"
    using assms(4) plainChar_not_ws by (auto simp: list_all_iff)
  have t1: "trim F = F" using nw by (rule trim_id_all)
  have "\<not> isWhiteSpace 0x2D" by (simp add: isWhiteSpace_def)
  then have t2: "trim (0x2D # F) = 0x2D # F" using nw by (intro trim_id_all) simp
  obtain v where v: "strUnsignedDecimalLiteral F = Some v" using assms(1) by auto
  have c: "c \<noteq> 0x2B" "c \<noteq> 0x2D" using d by (auto simp: isDigit_def)
  have s1: "strDecimalLiteral F = Some (False, v)"
    using v c by (simp add: strDecimalLiteral_def F)
  have s2: "strDecimalLiteral (0x2D # F) = Some (True, v)"
    using v by (simp add: strDecimalLiteral_def)
  show "jsNumber F \<noteq> NaN" using s1 t1 assms(2) by (simp add: jsNumber_def)
  show "jsNumber (0x2D # F) \<noteq> NaN" using s2 t2 by (simp add: jsNumber_def)
qed

lemma jsNumber_special:
  "jsNumber (lit ''Infinity'') = Inf False"
  "jsNumber (lit ''-Infinity'') = Inf True"
  "jsNumber (lit ''0'') = Dbl False 0 0"
  by code_simp+

lemma canonical_cases:
  "canonical x = NaN \<and> x = NaN \<or> (\<exists>neg. canonical x = Inf neg) \<or> (\<exists>neg m e. canonical x = Dbl neg m e)"
  by (cases "canonical x") (auto dest: canonical_not_NaN)

lemma jsNumber_jsToString: "x \<noteq> NaN \<Longrightarrow> jsNumber (jsToString x) \<noteq> NaN"
proof -
  assume x: "x \<noteq> NaN"
  consider (inf) neg where "canonical x = Inf neg"
    | (zero) neg m e where "canonical x = Dbl neg m e" "m \<le> 0"
    | (fin) neg m e where "canonical x = Dbl neg m e" "0 < m"
    using canonical_cases[of x] x by (metis not_le)
  then show ?thesis
  proof cases
    case inf
    then show ?thesis by (cases neg) (simp_all add: jsToString_def jsNumber_special)
  next
    case zero
    then show ?thesis by (simp add: jsToString_def jsNumber_special)
  next
    case fin
    obtain F where F: "numberToString (Dbl neg m e) = (if neg then [0x2D] else []) @ F"
      "strUnsignedDecimalLiteral F \<noteq> None" "F \<noteq> []" "isDigit (hd F)" "list_all plainChar F"
      using numberToString_finite[OF fin(2)] by blast
    show ?thesis
      using jsNumber_text[OF F(2-5)] F(1) fin(1) by (cases neg) (simp_all add: jsToString_def)
  qed
qed

lemma jsToString_shape:
  "jsToString x \<noteq> [] \<and>
   (isDigit (hd (jsToString x)) \<or> hd (jsToString x) = 0x2D \<or> hd (jsToString x) = 0x49 \<or>
    hd (jsToString x) = 0x4E) \<and>
   list_all (\<lambda>c. \<not> isWhiteSpace c) (jsToString x)"
proof -
  consider (nan) "canonical x = NaN" | (inf) neg where "canonical x = Inf neg"
    | (zero) neg m e where "canonical x = Dbl neg m e" "m \<le> 0"
    | (fin) neg m e where "canonical x = Dbl neg m e" "0 < m"
    using canonical_cases[of x] by (metis not_le)
  then show ?thesis
  proof cases
    case nan
    then show ?thesis by (simp add: jsToString_def lit_def isWhiteSpace_def)
  next
    case inf
    then show ?thesis by (cases neg) (simp_all add: jsToString_def lit_def isWhiteSpace_def)
  next
    case zero
    then show ?thesis by (simp add: jsToString_def lit_def isWhiteSpace_def isDigit_def)
  next
    case fin
    obtain F where F: "numberToString (Dbl neg m e) = (if neg then [0x2D] else []) @ F"
      "strUnsignedDecimalLiteral F \<noteq> None" "F \<noteq> []" "isDigit (hd F)" "list_all plainChar F"
      using numberToString_finite[OF fin(2)] by blast
    have nw: "list_all (\<lambda>c. \<not> isWhiteSpace c) F"
      using F(5) plainChar_not_ws by (auto simp: list_all_iff)
    have "\<not> isWhiteSpace 0x2D" by (simp add: isWhiteSpace_def)
    then show ?thesis
      using F(1,3,4) nw fin(1) by (cases neg) (simp_all add: jsToString_def)
  qed
qed

lemma jsToString_not_plus:
  assumes "trim v = 0x2B # u"
  shows "jsToString x \<noteq> v"
proof
  assume e: "jsToString x = v"
  have "trim v = v" using jsToString_shape[of x] e by (intro trim_id_all) simp
  then have "v = 0x2B # u" using assms by simp
  then have "hd (jsToString x) = 0x2B" unfolding e by simp
  then show False using jsToString_shape[of x] by (auto simp: isDigit_def)
qed

subsection \<open>COERCE_NUMERIC and the number rule\<close>

lemma coerceRow_setzero_numeric:
  assumes "coerceRow (numOfInt k) SetZero r = Kept r' \<or> coerceRow (numOfInt k) SetZero r = Rewritten r'"
    and "0 \<le> k" and "nat k < length r'"
  shows "jsNumber (r' ! nat k) \<noteq> NaN"
proof (cases "int (length r) \<le> k")
  case True
  then have "r' = r" using assms(1,2) by (simp add: coerceRow_numOfInt)
  then show ?thesis using True assms(3) by simp
next
  case False
  then have inb: "nat k < length r" using assms(2) by simp
  have c: "coerceRow (numOfInt k) SetZero r = coerceCell SetZero r (Some (nat k))"
    using False assms(2) by (simp add: coerceRow_numOfInt)
  define val where "val = r ! nat k"
  show ?thesis
  proof (cases "length (trim val) = 0")
    case True
    then have "r' = r" using assms(1) c by (simp add: val_def)
    moreover have "jsNumber val = Dbl False 0 0" using True by (simp add: jsNumber_def)
    ultimately show ?thesis by (simp add: val_def)
  next
    case nonblank: False
    show ?thesis
    proof (cases "isNaN (jsNumber (trim val))")
      case True
      then have "r' = r[nat k := lit ''0'']"
        using assms(1) c nonblank by (simp add: val_def Let_def)
      then show ?thesis using inb by (simp add: jsNumber_special)
    next
      case False
      then have n: "jsNumber val \<noteq> NaN" by (simp add: isNaN_def)
      show ?thesis
      proof (cases "jsToString (jsNumber (trim val)) \<noteq> val")
        case True
        then have "r' = r[nat k := jsToString (jsNumber val)]"
          using assms(1) c nonblank False by (simp add: val_def Let_def)
        then show ?thesis using inb jsNumber_jsToString[OF n] by simp
      next
        case same: False
        then have "r' = r" using assms(1) c nonblank False by (simp add: val_def Let_def)
        then show ?thesis using n by (simp add: val_def)
      qed
    qed
  qed
qed

lemma coerceRow_setzero_cases:
  "coerceRow (numOfInt k) SetZero r = Kept r \<or>
   (\<exists>r'. coerceRow (numOfInt k) SetZero r = Rewritten r')"
  using coerceRow_cases[of k SetZero r] by auto

lemma coerceRows_setzero:
  "coerceRows (numOfInt k) SetZero t = Inr (out, ch, dr) \<Longrightarrow>
     length out = length t \<and>
     (\<forall>r \<in> set out. 0 \<le> k \<and> nat k < length r \<longrightarrow> jsNumber (r ! nat k) \<noteq> NaN)"
proof (induction t arbitrary: out ch dr)
  case Nil
  then show ?case by simp
next
  case (Cons r t)
  obtain out' ch' dr' where rest: "coerceRows (numOfInt k) SetZero t = Inr (out', ch', dr')"
    using coerceRows_numOfInt[of k SetZero t] by blast
  have ih: "length out' = length t \<and>
     (\<forall>r \<in> set out'. 0 \<le> k \<and> nat k < length r \<longrightarrow> jsNumber (r ! nat k) \<noteq> NaN)"
    using Cons.IH[OF rest] .
  consider (kept) "coerceRow (numOfInt k) SetZero r = Kept r"
    | (rewritten) r' where "coerceRow (numOfInt k) SetZero r = Rewritten r'"
    using coerceRow_setzero_cases[of k r] by blast
  then show ?case
  proof cases
    case kept
    then have o: "out = r # out'" using Cons.prems rest by simp
    have "0 \<le> k \<and> nat k < length r \<longrightarrow> jsNumber (r ! nat k) \<noteq> NaN"
      using coerceRow_setzero_numeric[of k r r] kept by blast
    then show ?thesis using o ih by simp
  next
    case rewritten
    then have o: "out = r' # out'" using Cons.prems rest by simp
    have "0 \<le> k \<and> nat k < length r' \<longrightarrow> jsNumber (r' ! nat k) \<noteq> NaN"
      using coerceRow_setzero_numeric[of k r r'] rewritten by blast
    then show ?thesis using o ih by simp
  qed
qed

subsection \<open>Literals and the normalizer\<close>

lemma of_char_bound: "(of_char c :: nat) < 256"
proof -
  have "(of_char c :: nat) mod 256 < 256" by simp
  then show ?thesis by (simp only: of_char_mod_256)
qed

lemma cunit_of_char_inject:
  "(of_nat (of_char a) :: cunit) = of_nat (of_char b) \<longleftrightarrow> a = b"
proof
  assume e: "(of_nat (of_char a) :: cunit) = of_nat (of_char b)"
  have p: "(256::nat) < 2 ^ LENGTH(16)" by simp
  have ba: "(of_char a :: nat) < 2 ^ LENGTH(16)" and bb: "(of_char b :: nat) < 2 ^ LENGTH(16)"
    by (rule order_less_trans[OF of_char_bound p])+
  have ua: "unat (of_nat (of_char a) :: cunit) = of_char a"
    using refl ba by (rule of_nat_inverse)
  have ub: "unat (of_nat (of_char b) :: cunit) = of_char b"
    using refl bb by (rule of_nat_inverse)
  have "unat (of_nat (of_char a) :: cunit) = unat (of_nat (of_char b) :: cunit)"
    using e by (rule arg_cong)
  then have "(of_char a :: nat) = of_char b" by (simp only: ua ub)
  then show "a = b" by (rule of_char_eqI)
qed simp

lemma lit_inject [simp]: "lit a = lit b \<longleftrightarrow> a = b"
proof -
  have "inj (\<lambda>c. of_nat (of_char c) :: cunit)"
    by (rule injI) (simp add: cunit_of_char_inject)
  then show ?thesis by (simp add: lit_def)
qed

lemma valueOr_JStr [simp]: "valueOr v = JStr s \<longleftrightarrow> v = Some (JStr s)"
  by (cases v) auto

lemma valueOr_JNum [simp]: "valueOr v = JNum c \<longleftrightarrow> v = Some (JNum c)"
  by (cases v) auto

lemma coerceCandidate_object:
  "coerceCandidate (JObj props) ci = Inr (Some action) \<longleftrightarrow>
     (\<exists>c. ci = JNum c \<and>
        action = COERCE_NUMERIC c (coerceOnErrorOf (valueOr (map_of props (lit ''onError'')))))"
  by (cases ci) auto

lemma coerceCandidate_not_number:
  "\<not> isNumber ci \<Longrightarrow> coerceCandidate a ci = Inr None"
  by (cases ci) auto

lemma typedCandidate_coerce:
  "typedCandidate (JObj props) ty = Inr (Some (COERCE_NUMERIC c onError)) \<longleftrightarrow>
     ty = JStr (lit ''COERCE_NUMERIC'') \<and>
     map_of props (lit ''columnIndex'') = Some (JNum c) \<and>
     onError = coerceOnErrorOf (valueOr (map_of props (lit ''onError'')))"
proof (cases ty)
  case (JStr s)
  then show ?thesis by (auto simp: coerceCandidate_object)
qed auto

lemma normalize_object:
  "normalizeCandidate (JObj props) = typedCandidate (JObj props) (valueOr (map_of props (lit ''type'')))"
  by (simp add: normalizeCandidate_def)

lemma typedCandidate_object_returns: "\<exists>pushed. typedCandidate (JObj props) ty = Inr pushed"
proof (cases ty)
  case (JStr s)
  show ?thesis
  proof (cases "valueOr (map_of props (lit ''columnIndex''))")
    case (JNum c)
    then show ?thesis using JStr by auto
  qed (use JStr in auto)
qed auto

lemma mapToCleaningActions_single:
  "mapToCleaningActions [JObj props] = Inr actions \<longleftrightarrow>
     (\<exists>pushed. typedCandidate (JObj props) (valueOr (map_of props (lit ''type''))) = Inr pushed \<and>
        actions = pushAction pushed [])"
  by (auto simp: normalize_object bindResult_Inr_iff)

lemma pushAction_single: "pushAction pushed [] = [action] \<longleftrightarrow> pushed = Some action"
  by (cases pushed) auto

lemma pushAction_empty: "pushAction pushed [] = [] \<longleftrightarrow> pushed = None"
  by (cases pushed) auto

lemma typeText_coerce:
  "typeText v = lit ''COERCE_NUMERIC'' \<longleftrightarrow> v = JStr (lit ''COERCE_NUMERIC'')"
proof (cases v)
  case (JNum n)
  have "hd (lit ''COERCE_NUMERIC'') = 0x43" by (simp add: lit_def)
  then have "jsToString n \<noteq> lit ''COERCE_NUMERIC''"
    using jsToString_shape[of n] by (auto simp: isDigit_def)
  then show ?thesis using JNum by simp
qed auto

lemma analyzeActions_single:
  "analyzeActions [JObj props] =
     Inr [JObj [(lit ''type'', JStr (typeText (valueOr (map_of props (lit ''type''))))),
                (lit ''columnIndex'',
                 if isNumber (valueOr (map_of props (lit ''column_index'')))
                 then valueOr (map_of props (lit ''column_index''))
                 else if isNumber (valueOr (map_of props (lit ''columnIndex'')))
                 then valueOr (map_of props (lit ''columnIndex''))
                 else JUndefined)]]"
  by (simp add: toAnalyzeCsvAction_def)

lemma isNumber_iff: "isNumber v \<longleftrightarrow> (\<exists>c. v = JNum c)"
  by (cases v) auto

subsection \<open>The texts that \<open>Number\<close> accepts\<close>

lemma signedInteger_text:
  "signedInteger r \<noteq> None \<longleftrightarrow>
     (\<exists>sg ds. r = sg @ ds \<and> (sg = [] \<or> sg = [0x2B] \<or> sg = [0x2D]) \<and> ds \<noteq> [] \<and> list_all isDigit ds)"
proof
  assume a: "signedInteger r \<noteq> None"
  show "\<exists>sg ds. r = sg @ ds \<and> (sg = [] \<or> sg = [0x2B] \<or> sg = [0x2D]) \<and> ds \<noteq> [] \<and> list_all isDigit ds"
  proof (cases r)
    case Nil
    then show ?thesis using a by (simp add: signedInteger_def)
  next
    case (Cons c ds)
    consider (plus) "c = 0x2B" | (minus) "c = 0x2D" | (other) "c \<noteq> 0x2B" "c \<noteq> 0x2D" by blast
    then show ?thesis
    proof cases
      case plus
      then have "isDecimalDigits ds" using a Cons by (simp add: signedInteger_def split: if_splits)
      then have "r = [0x2B] @ ds \<and> ds \<noteq> [] \<and> list_all isDigit ds"
        using plus Cons by (simp add: isDecimalDigits_def)
      then show ?thesis by blast
    next
      case minus
      then have "isDecimalDigits ds" using a Cons by (simp add: signedInteger_def split: if_splits)
      then have "r = [0x2D] @ ds \<and> ds \<noteq> [] \<and> list_all isDigit ds"
        using minus Cons by (simp add: isDecimalDigits_def)
      then show ?thesis by blast
    next
      case other
      then have "isDecimalDigits r" using a Cons by (simp add: signedInteger_def split: if_splits)
      then have "r = [] @ r \<and> r \<noteq> [] \<and> list_all isDigit r"
        by (simp add: isDecimalDigits_def)
      then show ?thesis by blast
    qed
  qed
next
  assume "\<exists>sg ds. r = sg @ ds \<and> (sg = [] \<or> sg = [0x2B] \<or> sg = [0x2D]) \<and> ds \<noteq> [] \<and> list_all isDigit ds"
  then obtain sg ds where r: "r = sg @ ds" and s: "sg = [] \<or> sg = [0x2B] \<or> sg = [0x2D]"
    and d: "ds \<noteq> []" "list_all isDigit ds" by blast
  have dd: "isDecimalDigits ds" using d by (simp add: isDecimalDigits_def)
  from s show "signedInteger r \<noteq> None"
  proof (elim disjE)
    assume e: "sg = []"
    obtain c cs where c: "ds = c # cs" using d(1) by (cases ds) auto
    then have "isDigit c" using d(2) by simp
    then have "c \<noteq> 0x2B" "c \<noteq> 0x2D" by (auto simp: isDigit_def)
    then show ?thesis using r e c dd by (simp add: signedInteger_def)
  next
    assume "sg = [0x2B]"
    then show ?thesis using r dd by (simp add: signedInteger_def)
  next
    assume "sg = [0x2D]"
    then show ?thesis using r dd by (simp add: signedInteger_def)
  qed
qed

lemma exponentPart_text: "exponentPart r \<noteq> None \<longleftrightarrow> r = [] \<or> exponentText r"
proof (cases r)
  case Nil
  then show ?thesis by (simp add: exponentPart_def)
next
  case (Cons c ds)
  show ?thesis
  proof (cases "c = 0x65 \<or> c = 0x45")
    case True
    then have "exponentPart r \<noteq> None \<longleftrightarrow> signedInteger ds \<noteq> None"
      using Cons by (simp add: exponentPart_def)
    moreover have "exponentText r \<longleftrightarrow>
      (\<exists>sg ds'. ds = sg @ ds' \<and> (sg = [] \<or> sg = [0x2B] \<or> sg = [0x2D]) \<and> ds' \<noteq> [] \<and> list_all isDigit ds')"
      using Cons True unfolding exponentText_def by auto
    ultimately show ?thesis using Cons signedInteger_text[of ds] by simp
  next
    case False
    then have "exponentPart r = None" using Cons by (auto simp: exponentPart_def)
    moreover have "\<not> exponentText r" using Cons False unfolding exponentText_def by auto
    ultimately show ?thesis using Cons by simp
  qed
qed

lemma nonDecimalIntegerLiteral_text: "nonDecimalIntegerLiteral t \<noteq> None \<longleftrightarrow> nonDecimalText t"
proof (cases t)
  case Nil
  then show ?thesis by (simp add: nonDecimalIntegerLiteral_def nonDecimalText_def)
next
  case outer: (Cons z r)
  show ?thesis
  proof (cases r)
    case Nil
    then show ?thesis using outer by (simp add: nonDecimalIntegerLiteral_def nonDecimalText_def)
  next
    case (Cons p ds)
    then have t: "t = z # p # ds" using outer by simp
    show ?thesis unfolding t nonDecimalIntegerLiteral_def nonDecimalText_def
      by (auto split: if_splits)
  qed
qed

lemma literalNumber_NaN: "literalNumber a b = NaN \<longleftrightarrow> a = None \<and> b = None"
proof (cases a)
  case None
  then show ?thesis by (cases b) auto
next
  case (Some v)
  then show ?thesis by simp
qed

lemma not_unsigned_Nil: "\<not> unsignedDecimalText []"
  unfolding unsignedDecimalText_def by (auto simp: lit_def)

lemma unsigned_head:
  assumes "unsignedDecimalText (c # r)"
  shows "isDigit c \<or> c = 0x2E \<or> c = 0x49"
proof -
  consider (inf) "c # r = lit ''Infinity''"
    | (dec) ip fp x where "c # r = ip @ fp @ x" "list_all isDigit ip"
        "fp = [] \<and> ip \<noteq> [] \<or> (\<exists>fd. fp = 0x2E # fd \<and> list_all isDigit fd \<and> (ip \<noteq> [] \<or> fd \<noteq> []))"
    using assms unfolding unsignedDecimalText_def by blast
  then show ?thesis
  proof cases
    case inf
    then show ?thesis by (simp add: lit_def)
  next
    case dec
    show ?thesis
    proof (cases ip)
      case Nil
      then show ?thesis using dec by auto
    next
      case (Cons d ds)
      then show ?thesis using dec by auto
    qed
  qed
qed

lemma exponentText_head: "exponentText x \<Longrightarrow> x \<noteq> [] \<and> \<not> isDigit (hd x) \<and> hd x \<noteq> 0x2E"
  unfolding exponentText_def by (auto simp: isDigit_def)

lemma strUnsignedDecimalLiteral_text:
  "strUnsignedDecimalLiteral u \<noteq> None \<longleftrightarrow> unsignedDecimalText u"
proof (cases "u = lit ''Infinity''")
  case True
  then show ?thesis by (simp add: strUnsignedDecimalLiteral_def unsignedDecimalText_def)
next
  case ninf: False
  define ip where "ip = takeWhile isDigit u"
  define r1 where "r1 = dropWhile isDigit u"
  define hasDot where "hasDot \<longleftrightarrow> r1 \<noteq> [] \<and> hd r1 = 0x2E"
  define fp where "fp = (if hasDot then takeWhile isDigit (tl r1) else [])"
  define r2 where "r2 = (if hasDot then dropWhile isDigit (tl r1) else r1)"
  have parse: "strUnsignedDecimalLiteral u \<noteq> None \<longleftrightarrow> \<not> (ip = [] \<and> fp = []) \<and> exponentPart r2 \<noteq> None"
    using ninf unfolding strUnsignedDecimalLiteral_def ip_def r1_def hasDot_def fp_def r2_def
    by (simp add: Let_def split: option.splits)
  have u: "u = ip @ r1" unfolding ip_def r1_def by simp
  have dip: "list_all isDigit ip" unfolding ip_def by (simp add: list_all_iff) (meson set_takeWhileD)
  show ?thesis
  proof
    assume "strUnsignedDecimalLiteral u \<noteq> None"
    then have ne: "\<not> (ip = [] \<and> fp = [])" and ex: "r2 = [] \<or> exponentText r2"
      using parse exponentPart_text[of r2] by auto
    show "unsignedDecimalText u"
    proof (cases hasDot)
      case True
      then have r1: "r1 = 0x2E # tl r1" unfolding hasDot_def by (cases r1) auto
      have t: "tl r1 = fp @ r2" using True unfolding fp_def r2_def by simp
      have dfp: "list_all isDigit fp" using True unfolding fp_def
        by (simp add: list_all_iff) (meson set_takeWhileD)
      have "u = ip @ (0x2E # fp) @ r2" using u r1 t by (metis append_Cons)
      then show ?thesis unfolding unsignedDecimalText_def using dip dfp ne ex by blast
    next
      case False
      then have f: "fp = []" "r2 = r1" unfolding fp_def r2_def by simp_all
      have "u = ip @ [] @ r2" using u f by simp
      then show ?thesis unfolding unsignedDecimalText_def using dip ne ex f by blast
    qed
  next
    assume "unsignedDecimalText u"
    then obtain ip' fp' x where s: "u = ip' @ fp' @ x" "list_all isDigit ip'"
        "fp' = [] \<and> ip' \<noteq> [] \<or> (\<exists>fd. fp' = 0x2E # fd \<and> list_all isDigit fd \<and> (ip' \<noteq> [] \<or> fd \<noteq> []))"
        "x = [] \<or> exponentText x"
      using ninf unfolding unsignedDecimalText_def by blast
    have xh: "x = [] \<or> \<not> isDigit (hd x)" "x = [] \<or> hd x \<noteq> 0x2E"
      using s(4) exponentText_head[of x] by auto
    consider (plain) "fp' = []" "ip' \<noteq> []"
      | (point) fd where "fp' = 0x2E # fd" "list_all isDigit fd" "ip' \<noteq> [] \<or> fd \<noteq> []"
      using s(3) by blast
    then show "strUnsignedDecimalLiteral u \<noteq> None"
    proof cases
      case a: plain
      have "ip = ip'" "r1 = x"
        unfolding ip_def r1_def using s(1) a takeWhile_digits[OF s(2) xh(1)] dropWhile_digits[OF s(2) xh(1)]
        by simp_all
      moreover from this have "\<not> hasDot" using xh(2) unfolding hasDot_def by auto
      ultimately have "ip \<noteq> []" "r2 = x" using a unfolding r2_def by simp_all
      then show ?thesis using parse s(4) exponentPart_text[of r2] by simp
    next
      case a: point
      have nd: "fp' @ x = [] \<or> \<not> isDigit (hd (fp' @ x))" using a by (simp add: isDigit_def)
      have i: "ip = ip'" "r1 = 0x2E # fd @ x"
        unfolding ip_def r1_def
        using s(1) a takeWhile_digits[OF s(2) nd] dropWhile_digits[OF s(2) nd] by simp_all
      then have h: "hasDot" unfolding hasDot_def by simp
      have "fp = fd" "r2 = x"
        unfolding fp_def r2_def
        using h i takeWhile_digits[OF a(2) xh(1)] dropWhile_digits[OF a(2) xh(1)] by simp_all
      then show ?thesis using parse s(4) a(3) i exponentPart_text[of r2] by simp
    qed
  qed
qed

lemma strDecimalLiteral_text:
  "strDecimalLiteral t \<noteq> None \<longleftrightarrow>
     unsignedDecimalText t \<or> (\<exists>u. (t = 0x2B # u \<or> t = 0x2D # u) \<and> unsignedDecimalText u)"
proof (cases t)
  case Nil
  then show ?thesis using not_unsigned_Nil by (simp add: strDecimalLiteral_def)
next
  case (Cons c r)
  consider (plus) "c = 0x2B" | (minus) "c = 0x2D" | (other) "c \<noteq> 0x2B" "c \<noteq> 0x2D" by blast
  then show ?thesis
  proof cases
    case plus
    then have "\<not> unsignedDecimalText t" using unsigned_head[of c r] Cons by (auto simp: isDigit_def)
    then show ?thesis using plus Cons strUnsignedDecimalLiteral_text[of r]
      by (simp add: strDecimalLiteral_def)
  next
    case minus
    then have "\<not> unsignedDecimalText t" using unsigned_head[of c r] Cons by (auto simp: isDigit_def)
    then show ?thesis using minus Cons strUnsignedDecimalLiteral_text[of r]
      by (simp add: strDecimalLiteral_def)
  next
    case other
    then show ?thesis using Cons strUnsignedDecimalLiteral_text[of t]
      by (simp add: strDecimalLiteral_def)
  qed
qed

lemma jsNumber_numericText: "isNaN (jsNumber s) \<longleftrightarrow> trim s \<noteq> [] \<and> \<not> numericText (trim s)"
  unfolding isNaN_def jsNumber_def numericText_def
  using strDecimalLiteral_text[of "trim s"] nonDecimalIntegerLiteral_text[of "trim s"]
  by (auto simp: Let_def literalNumber_NaN)

lemma numericText_plus: "numericText (0x2B # u) \<longleftrightarrow> unsignedDecimalText u"
proof -
  have "\<not> unsignedDecimalText (0x2B # u)" using unsigned_head[of "0x2B" u] by (auto simp: isDigit_def)
  moreover have "\<not> nonDecimalText (0x2B # u)" by (simp add: nonDecimalText_def)
  ultimately show ?thesis by (simp add: numericText_def)
qed

lemma digit_numericChar: "list_all isDigit ds \<Longrightarrow> list_all numericChar ds"
  by (auto simp: list_all_iff numericChar_def)

lemma hexDigit_numericChar: "list_all isHexDigit ds \<Longrightarrow> list_all numericChar ds"
proof -
  have "isHexDigit c \<Longrightarrow> numericChar c" for c
    unfolding isHexDigit_def numericChar_def by (auto simp: word_le_nat_alt)
  then show "list_all isHexDigit ds \<Longrightarrow> list_all numericChar ds" by (auto simp: list_all_iff)
qed

lemma octalDigit_numericChar: "list_all isOctalDigit ds \<Longrightarrow> list_all numericChar ds"
proof -
  have "isOctalDigit c \<Longrightarrow> numericChar c" for c
    unfolding isOctalDigit_def numericChar_def isDigit_def by (auto simp: word_le_nat_alt)
  then show "list_all isOctalDigit ds \<Longrightarrow> list_all numericChar ds" by (auto simp: list_all_iff)
qed

lemma binaryDigit_numericChar: "list_all isBinaryDigit ds \<Longrightarrow> list_all numericChar ds"
proof -
  have "isBinaryDigit c \<Longrightarrow> numericChar c" for c
    unfolding isBinaryDigit_def numericChar_def isDigit_def by auto
  then show "list_all isBinaryDigit ds \<Longrightarrow> list_all numericChar ds" by (auto simp: list_all_iff)
qed

lemma exponentText_chars: "exponentText x \<Longrightarrow> list_all numericChar x"
proof -
  assume "exponentText x"
  then obtain c sg ds where x: "x = c # sg @ ds" "c = 0x65 \<or> c = 0x45"
    "sg = [] \<or> sg = [0x2B] \<or> sg = [0x2D]" "list_all isDigit ds"
    unfolding exponentText_def by blast
  have "numericChar c" using x(2) by (auto simp: numericChar_def)
  moreover have "list_all numericChar sg" using x(3) by (auto simp: numericChar_def)
  moreover have "list_all numericChar ds" using x(4) by (rule digit_numericChar)
  ultimately show ?thesis using x(1) by simp
qed

lemma unsignedDecimalText_chars: "unsignedDecimalText u \<Longrightarrow> list_all numericChar u"
proof -
  assume a: "unsignedDecimalText u"
  consider (inf) "u = lit ''Infinity''"
    | (dec) ip fp x where "u = ip @ fp @ x" "list_all isDigit ip"
        "fp = [] \<or> (\<exists>fd. fp = 0x2E # fd \<and> list_all isDigit fd)"
        "x = [] \<or> exponentText x"
    using a unfolding unsignedDecimalText_def by blast
  then show ?thesis
  proof cases
    case inf
    then show ?thesis by (simp add: lit_def numericChar_def)
  next
    case dec
    have "list_all numericChar ip" using dec(2) by (rule digit_numericChar)
    moreover have "list_all numericChar fp"
      using dec(3) digit_numericChar by (auto simp: numericChar_def)
    moreover have "list_all numericChar x" using dec(4) exponentText_chars by auto
    ultimately show ?thesis using dec(1) by simp
  qed
qed

lemma numericText_chars: "numericText t \<Longrightarrow> list_all numericChar t"
proof -
  assume a: "numericText t"
  consider (u) "unsignedDecimalText t"
    | (s) u where "t = 0x2B # u \<or> t = 0x2D # u" "unsignedDecimalText u"
    | (n) p ds where "t = 0x30 # p # ds"
        "(p = 0x78 \<or> p = 0x58) \<and> list_all isHexDigit ds \<or>
         (p = 0x6F \<or> p = 0x4F) \<and> list_all isOctalDigit ds \<or>
         (p = 0x62 \<or> p = 0x42) \<and> list_all isBinaryDigit ds"
    using a unfolding numericText_def nonDecimalText_def by blast
  then show ?thesis
  proof cases
    case u
    then show ?thesis by (rule unsignedDecimalText_chars)
  next
    case s
    then show ?thesis using unsignedDecimalText_chars[of u] by (auto simp: numericChar_def)
  next
    case n
    have "numericChar 0x30" by (simp add: numericChar_def isDigit_def)
    moreover have "numericChar p" using n(2) by (auto simp: numericChar_def)
    moreover have "list_all numericChar ds"
      using n(2) hexDigit_numericChar octalDigit_numericChar binaryDigit_numericChar by blast
    ultimately show ?thesis using n(1) by simp
  qed
qed

lemma numericText_comma: "0x2C \<in> set t \<Longrightarrow> \<not> numericText t"
proof
  assume c: "0x2C \<in> set t" and "numericText t"
  then have "numericChar 0x2C" using numericText_chars[of t] by (auto simp: list_all_iff)
  then show False by (simp add: numericChar_def isDigit_def)
qed

lemma coerceRow_rule:
  "coerceRow (numOfInt k) onError r =
     (if skipsRow k r then Kept r
      else if numericText (trim (r ! nat k))
        then (if jsToString (jsNumber (trim (r ! nat k))) \<noteq> r ! nat k
              then Rewritten (r[nat k := jsToString (jsNumber (trim (r ! nat k)))])
              else Kept r)
      else onErrorOutcome onError r (nat k))"
proof (cases "skipsRow k r")
  case True
  then show ?thesis by (simp add: coerceRow_skipped)
next
  case False
  then have b: "\<not> (k < 0 \<or> int (length r) \<le> k)" and t: "trim (r ! nat k) \<noteq> []"
    by (auto simp: skipsRow_def)
  have n: "isNaN (jsNumber (trim (r ! nat k))) \<longleftrightarrow> \<not> numericText (trim (r ! nat k))"
    using t jsNumber_numericText[of "trim (r ! nat k)"] by simp
  have "coerceRow (numOfInt k) onError r = coerceCell onError r (Some (nat k))"
    using b by (simp add: coerceRow_numOfInt)
  then show ?thesis using False t n by (simp add: Let_def del: jsNumber_trim)
qed

lemma coerceRows_rule:
  "coerceRows (numOfInt k) onError t =
     Inr (concat (map (coerceRule k onError) t),
          length (filter (coerceRuleChanged k onError) t),
          length (filter (coerceRuleDropped k onError) t))"
proof (induction t)
  case Nil
  then show ?case by simp
next
  case (Cons r t)
  show ?case
  proof (cases "skipsRow k r")
    case True
    then show ?thesis using Cons
      by (simp add: coerceRow_rule coerceRule_def coerceRuleChanged_def coerceRuleDropped_def)
  next
    case ns: False
    show ?thesis
    proof (cases "numericText (trim (r ! nat k))")
      case True
      then show ?thesis using Cons ns
        by (simp add: coerceRow_rule coerceRule_def coerceRuleChanged_def coerceRuleDropped_def)
    next
      case False
      then show ?thesis using Cons ns
        by (cases onError)
           (simp_all add: coerceRow_rule coerceRule_def coerceRuleChanged_def coerceRuleDropped_def)
    qed
  qed
qed

lemma coerce_action_rule:
  "applyAction hasHeader (COERCE_NUMERIC (numOfInt k) onError) st =
     Inr \<lparr>rows = take (if hasHeader then 1 else 0) (rows st) @
                   concat (map (coerceRule k onError) (drop (if hasHeader then 1 else 0) (rows st))),
          rowsChanged = rowsChanged st +
            length (filter (coerceRuleChanged k onError) (drop (if hasHeader then 1 else 0) (rows st))),
          rowsDropped = rowsDropped st +
            length (filter (coerceRuleDropped k onError) (drop (if hasHeader then 1 else 0) (rows st)))\<rparr>"
  by (simp add: coerceRows_rule Let_def)

lemma coerceRule_plus:
  assumes "\<not> skipsRow k r" "trim (r ! nat k) = 0x2B # u" "unsignedDecimalText u"
  shows "coerceRule k onError r = [r[nat k := jsToString (jsNumber (0x2B # u))]]"
    and "coerceRuleChanged k onError r" and "\<not> coerceRuleDropped k onError r"
proof -
  have n: "numericText (trim (r ! nat k))" using assms(2,3) by (simp add: numericText_plus)
  have d: "jsToString (jsNumber (trim (r ! nat k))) \<noteq> r ! nat k"
    using assms(2) by (rule jsToString_not_plus)
  show "coerceRule k onError r = [r[nat k := jsToString (jsNumber (0x2B # u))]]"
    using assms(1) n assms(2) by (simp add: coerceRule_def del: jsNumber_trim)
  show "coerceRuleChanged k onError r"
    using assms(1) n d unfolding coerceRuleChanged_def by (simp del: jsNumber_trim)
  show "\<not> coerceRuleDropped k onError r" using n by (simp add: coerceRuleDropped_def)
qed

subsection \<open>The fixed plan run on its own result\<close>

lemma stripChanged_zero: "stripChanged t = 0 \<longleftrightarrow> noWrappedCell t"
  unfolding stripChanged_def noWrappedCell_def
  by (auto simp: filter_empty_conv list_all_iff)

lemma stripWrappingQuotes_id: "noWrappedCell t \<Longrightarrow> stripWrappingQuotes t = t"
  unfolding stripWrappingQuotes_def noWrappedCell_def
  by (auto simp: list_all_iff stripCell_def intro!: map_idI)

lemma trimChanged_zero: "trimmedCells t \<Longrightarrow> trimChanged t = 0"
  unfolding trimChanged_def trimmedCells_def
  by (auto simp: filter_empty_conv)

lemma trimWhitespace_id: "trimmedCells t \<Longrightarrow> trimWhitespace t = t"
  unfolding trimWhitespace_def trimmedCells_def
  by (auto intro!: map_idI)

lemma removeEmptyFrom_dropped:
  "snd (removeEmptyFrom hasHeader 0 t) = 0 \<longleftrightarrow> noEmptyDataRow hasHeader t"
  unfolding removeEmptyFrom_zero noEmptyDataRow_def
  by (simp add: filter_empty_conv list_all_iff)

lemma removeEmptyFrom_id:
  assumes "noEmptyDataRow hasHeader t"
  shows "removeEmptyFrom hasHeader 0 t = (t, 0)"
proof -
  have "filter (\<lambda>r. \<not> rowIsEmpty r) (drop (if hasHeader then 1 else 0) t)
          = drop (if hasHeader then 1 else 0) t"
    using assms unfolding noEmptyDataRow_def by (simp add: list_all_iff)
  moreover have "length (filter rowIsEmpty (drop (if hasHeader then 1 else 0) t)) = 0"
    using assms unfolding noEmptyDataRow_def by (simp add: filter_empty_conv list_all_iff)
  ultimately show ?thesis unfolding removeEmptyFrom_zero by simp
qed

lemma equalizeRows_id: "\<forall>r\<in>set t. length r = n \<Longrightarrow> equalizeRows mode n t = (t, 0, 0)"
  by (induction t) auto

lemma equalizeRows_expected_id:
  "\<forall>r\<in>set t. length r = n \<Longrightarrow> equalizeRows mode (expectedColumns t) t = (t, 0, 0)"
  by (cases t) (auto simp: equalizeRows_id)

lemma trimmedCells_trimWhitespace: "trimmedCells (trimWhitespace t)"
  unfolding trimmedCells_def trimWhitespace_def by auto

lemma removeEmptyFrom_rows: "set (fst (removeEmptyFrom hasHeader 0 t)) \<subseteq> set t"
  unfolding removeEmptyFrom_zero
  by (auto dest: in_set_takeD in_set_dropD)

lemma trimmedCells_equalizeRows:
  assumes "trimmedCells t"
  shows "trimmedCells (fst (equalizeRows PadWithEmpty n t))"
  using assms unfolding trimmedCells_def equalizeRows_pad_rows
  by (auto dest: in_set_takeD split: if_splits)

lemma preClean_run:
  "applyActions t preCleanActions hasHeader =
     Inr \<lparr>rows = fst (equalizeRows PadWithEmpty
                   (expectedColumns (fst (removeEmptyFrom hasHeader 0
                      (trimWhitespace (stripWrappingQuotes t)))))
                   (fst (removeEmptyFrom hasHeader 0 (trimWhitespace (stripWrappingQuotes t))))),
          rowsChanged = stripChanged t + trimChanged (stripWrappingQuotes t) +
            fst (snd (equalizeRows PadWithEmpty
                   (expectedColumns (fst (removeEmptyFrom hasHeader 0
                      (trimWhitespace (stripWrappingQuotes t)))))
                   (fst (removeEmptyFrom hasHeader 0 (trimWhitespace (stripWrappingQuotes t)))))),
          rowsDropped = snd (removeEmptyFrom hasHeader 0 (trimWhitespace (stripWrappingQuotes t))) +
            snd (snd (equalizeRows PadWithEmpty
                   (expectedColumns (fst (removeEmptyFrom hasHeader 0
                      (trimWhitespace (stripWrappingQuotes t)))))
                   (fst (removeEmptyFrom hasHeader 0 (trimWhitespace (stripWrappingQuotes t))))))\<rparr>"
  unfolding applyActions_def preCleanActions_def
  by (simp split: prod.splits)

lemma preClean_rows_trimmed:
  assumes "applyActions t preCleanActions hasHeader = Inr first"
  shows "trimmedCells (rows first)"
proof -
  have "trimmedCells (fst (removeEmptyFrom hasHeader 0 (trimWhitespace (stripWrappingQuotes t))))"
    using trimmedCells_trimWhitespace[of "stripWrappingQuotes t"]
      removeEmptyFrom_rows[of hasHeader "trimWhitespace (stripWrappingQuotes t)"]
    unfolding trimmedCells_def by blast
  then show ?thesis using assms unfolding preClean_run
    by (auto intro: trimmedCells_equalizeRows)
qed

lemma preClean_rows_length:
  assumes "applyActions t preCleanActions hasHeader = Inr first"
  shows "\<exists>n. \<forall>r\<in>set (rows first). length r = n"
proof -
  obtain n R where "rows first = fst (equalizeRows PadWithEmpty n R)"
    using assms unfolding preClean_run by auto
  then show ?thesis using equalizeRows_pad_length[of _ n R] by auto
qed

lemma preClean_settled:
  assumes t: "trimmedCells t" and n: "\<forall>r\<in>set t. length r = n"
    and w: "noWrappedCell t" and e: "noEmptyDataRow hasHeader t"
  shows "applyActions t preCleanActions hasHeader = Inr \<lparr>rows = t, rowsChanged = 0, rowsDropped = 0\<rparr>"
  unfolding preClean_run
  by (simp add: stripWrappingQuotes_id[OF w] trimWhitespace_id[OF t] removeEmptyFrom_id[OF e]
      equalizeRows_expected_id[OF n] trimChanged_zero[OF t] stripChanged_zero w)

lemma preClean_unsettled:
  assumes t: "trimmedCells t"
    and r: "applyActions t preCleanActions hasHeader = Inr \<lparr>rows = t, rowsChanged = 0, rowsDropped = 0\<rparr>"
  shows "noWrappedCell t \<and> noEmptyDataRow hasHeader t"
proof -
  have w: "noWrappedCell t" using r unfolding preClean_run by (simp add: stripChanged_zero)
  have "snd (removeEmptyFrom hasHeader 0 (trimWhitespace (stripWrappingQuotes t))) = 0"
    using r unfolding preClean_run by simp
  then have "noEmptyDataRow hasHeader t"
    by (simp add: stripWrappingQuotes_id[OF w] trimWhitespace_id[OF t] removeEmptyFrom_dropped)
  then show ?thesis using w by simp
qed

section \<open>Properties of the interpreter\<close>

text \<open>
  C3, as the specification states it: within one pass the column count used by
  ENSURE_EQUAL_COLUMNS is the one recorded when the pass starts, also after earlier
  actions of the pass have changed the first row. The code takes the count of the first
  row at the moment each ENSURE_EQUAL_COLUMNS runs. Without a header the two differ: a
  REMOVE_EMPTY_ROWS that drops the first row changes the count that the next
  ENSURE_EQUAL_COLUMNS uses (3 columns kept by the code, 2 by the recorded count).
\<close>

theorem expected_columns_recorded_counterexample:
  "applyActions [[[], []], [lit ''a'', lit ''b'', lit ''c'']]
       [REMOVE_EMPTY_ROWS, ENSURE_EQUAL_COLUMNS PadWithEmpty] False
     = Inr \<lparr>rows = [[lit ''a'', lit ''b'', lit ''c'']], rowsChanged = 0, rowsDropped = 1\<rparr> \<and>
   applyActionsRecorded [[[], []], [lit ''a'', lit ''b'', lit ''c'']]
       [REMOVE_EMPTY_ROWS, ENSURE_EQUAL_COLUMNS PadWithEmpty] False
     = Inr \<lparr>rows = [[lit ''a'', lit ''b'']], rowsChanged = 1, rowsDropped = 1\<rparr>"
  by code_simp

text \<open>
  C3, amended: the count used is that of the current first row, and when \<open>hasHeader\<close> is
  true it is the count of the header row at the start of the pass, because no action
  removes or resizes row 0: the code and the interpreter with the recorded count give the
  same result for every table and every plan.
\<close>

theorem expected_columns_with_header:
  "applyActions t actions True = applyActionsRecorded t actions True"
  using runActionsRecorded_same[of "\<lparr>rows = t, rowsChanged = 0, rowsDropped = 0\<rparr>" actions]
  by (simp add: applyActions_def applyActionsRecorded_def)

text \<open>
  C5. With \<open>hasHeader\<close> true no action removes row 0: after any plan the first row of the
  result is the first row of the input, its cells rewritten by the TRIM_WHITESPACE and
  STRIP_WRAPPING_QUOTES actions of the plan and by nothing else; a plan of
  REMOVE_EMPTY_ROWS, ENSURE_EQUAL_COLUMNS and COERCE_NUMERIC actions (in any mode) returns
  it as it was. The pass returns whenever the column indices are integers.
\<close>

theorem header_row_never_removed:
  "(list_all integerColumn actions \<longrightarrow> (\<exists>res. applyActions (h # rest) actions True = Inr res)) \<and>
   (\<forall>res. applyActions (h # rest) actions True = Inr res \<longrightarrow>
      rows res \<noteq> [] \<and>
      hd (rows res) = fold headerRewrite actions h \<and>
      (TRIM_WHITESPACE \<notin> set actions \<and> STRIP_WRAPPING_QUOTES \<notin> set actions \<longrightarrow>
         hd (rows res) = h))"
proof (intro conjI allI impI)
  assume "list_all integerColumn actions"
  then show "\<exists>res. applyActions (h # rest) actions True = Inr res"
    unfolding applyActions_def by (rule runActions_total)
next
  fix res
  assume a: "applyActions (h # rest) actions True = Inr res"
  then obtain rest' where r: "rows res = fold headerRewrite actions h # rest'"
    unfolding applyActions_def using runActions_header by fastforce
  show "rows res \<noteq> []" using r by simp
  show "hd (rows res) = fold headerRewrite actions h" using r by simp
  assume "TRIM_WHITESPACE \<notin> set actions \<and> STRIP_WRAPPING_QUOTES \<notin> set actions"
  then show "hd (rows res) = h" using r by (simp add: fold_headerRewrite_id)
qed

text \<open>
  An instance: the header \<open>id,\<close> has only empty cells after the first and a first cell
  that is no number, so each of the three actions would remove it if it were a data row.
\<close>

theorem header_row_never_removed_witness:
  "list_all integerColumn
     [REMOVE_EMPTY_ROWS, ENSURE_EQUAL_COLUMNS DropRow, COERCE_NUMERIC (numOfInt 0) OnErrorDropRow] \<and>
   applyActions ([lit ''id'', []] # [[lit ''7'', lit ''x''], [lit ''n/a'', lit ''y''], [lit ''8'']])
     [REMOVE_EMPTY_ROWS, ENSURE_EQUAL_COLUMNS DropRow, COERCE_NUMERIC (numOfInt 0) OnErrorDropRow] True
     = Inr \<lparr>rows = [[lit ''id'', []], [lit ''7'', lit ''x'']], rowsChanged = 0, rowsDropped = 2\<rparr> \<and>
   hd [[lit ''id'', []], [lit ''7'', lit ''x'']] = [lit ''id'', []]"
proof -
  have e: "applyActions ([lit ''id'', []] # [[lit ''7'', lit ''x''], [lit ''n/a'', lit ''y''], [lit ''8'']])
     [REMOVE_EMPTY_ROWS, ENSURE_EQUAL_COLUMNS DropRow, COERCE_NUMERIC (numOfInt 0) OnErrorDropRow] True
     = Inr \<lparr>rows = [[lit ''id'', []], [lit ''7'', lit ''x'']], rowsChanged = 0, rowsDropped = 2\<rparr>"
    by code_simp
  have i: "list_all integerColumn
     [REMOVE_EMPTY_ROWS, ENSURE_EQUAL_COLUMNS DropRow, COERCE_NUMERIC (numOfInt 0) OnErrorDropRow]"
    by (simp add: numOfInt_def)
  show ?thesis
    using header_row_never_removed[where actions =
        "[REMOVE_EMPTY_ROWS, ENSURE_EQUAL_COLUMNS DropRow, COERCE_NUMERIC (numOfInt 0) OnErrorDropRow]"
        and h = "[lit ''id'', []]"
        and rest = "[[lit ''7'', lit ''x''], [lit ''n/a'', lit ''y''], [lit ''8'']]"] e i
    by simp
qed

text \<open>
  C7. Right after ENSURE_EQUAL_COLUMNS with mode pad-with-empty has run, every row has the
  column count that the first row had when the action started: a shorter row is padded
  with empty cells, a longer one is cut, a matching one is kept (the action never throws).
\<close>

theorem ensure_equal_columns_pad:
  "case applyAction hasHeader (ENSURE_EQUAL_COLUMNS PadWithEmpty) st of
     Inl err \<Rightarrow> False
   | Inr st' \<Rightarrow>
       (\<forall>r \<in> set (rows st'). length r = expectedColumns (rows st)) \<and>
       rows st' =
         map (\<lambda>r. if length r < expectedColumns (rows st)
                  then r @ replicate (expectedColumns (rows st) - length r) []
                  else take (expectedColumns (rows st)) r) (rows st)"
proof -
  define n where "n = expectedColumns (rows st)"
  obtain newRows ch dr where e: "equalizeRows PadWithEmpty n (rows st) = (newRows, ch, dr)"
    by (cases "equalizeRows PadWithEmpty n (rows st)") auto
  have a: "applyAction hasHeader (ENSURE_EQUAL_COLUMNS PadWithEmpty) st =
      Inr \<lparr>rows = newRows, rowsChanged = rowsChanged st + ch, rowsDropped = rowsDropped st + dr\<rparr>"
    using e by (simp add: n_def)
  have 1: "\<forall>r \<in> set newRows. length r = n"
    using equalizeRows_pad_length[of _ n "rows st"] e by auto
  have 2: "newRows = map (\<lambda>r. if length r < n then r @ replicate (n - length r) [] else take n r) (rows st)"
    using equalizeRows_pad_rows[of n "rows st"] e by simp
  have 3: "\<forall>r \<in> set newRows. length r = expectedColumns (rows st)" using 1 by (simp add: n_def)
  have 4: "newRows = map (\<lambda>r. if length r < expectedColumns (rows st)
                  then r @ replicate (expectedColumns (rows st) - length r) []
                  else take (expectedColumns (rows st)) r) (rows st)" using 2 by (simp add: n_def)
  show ?thesis
    apply (simp only: a sum.case applyActionsResult.select_convs)
    apply (rule conjI)
     apply (rule 3)
    apply (rule 4)
    done
qed

theorem ensure_equal_columns_pad_witness:
  "applyAction True (ENSURE_EQUAL_COLUMNS PadWithEmpty)
     \<lparr>rows = [[lit ''a'', lit ''b''], [lit ''x''], [lit ''p'', lit ''q'', lit ''r'']],
      rowsChanged = 0, rowsDropped = 0\<rparr>
     = Inr \<lparr>rows = [[lit ''a'', lit ''b''], [lit ''x'', []], [lit ''p'', lit ''q'']],
            rowsChanged = 2, rowsDropped = 0\<rparr> \<and>
   [lit ''x'', []] \<in> set [[lit ''a'', lit ''b''], [lit ''x'', []], [lit ''p'', lit ''q'']] \<and>
   length [lit ''x'', []] =
     expectedColumns [[lit ''a'', lit ''b''], [lit ''x''], [lit ''p'', lit ''q'', lit ''r'']]"
  using ensure_equal_columns_pad[where hasHeader = True and st =
    "\<lparr>rows = [[lit ''a'', lit ''b''], [lit ''x''], [lit ''p'', lit ''q'', lit ''r'']],
      rowsChanged = 0, rowsDropped = 0\<rparr>"]
  by simp

text \<open>
  C10. COERCE_NUMERIC on an integer column \<open>k\<close>, in every mode, returns a table whose rows
  before the data-start index are those of the input, and whose rows are rows of the
  input, in order, equal to them outside column \<open>k\<close> (all of them, and none dropped, unless
  the mode is drop-row). Every data row whose cell in column \<open>k\<close> is out of bounds or empty
  after trimming is retained as it is, and only the other data rows are counted as
  changed or dropped.
\<close>

theorem coerce_numeric_frame:
  "case applyAction hasHeader (COERCE_NUMERIC (numOfInt k) onError) st of
     Inl err \<Rightarrow> False
   | Inr st' \<Rightarrow>
       take (if hasHeader then 1 else 0) (rows st') = take (if hasHeader then 1 else 0) (rows st) \<and>
       subseq (map (withoutColumn k) (rows st')) (map (withoutColumn k) (rows st)) \<and>
       subseq (filter (skipsRow k) (drop (if hasHeader then 1 else 0) (rows st)))
              (drop (if hasHeader then 1 else 0) (rows st')) \<and>
       rowsChanged st' + rowsDropped st' \<le>
         rowsChanged st + rowsDropped st +
           length (filter (\<lambda>r. \<not> skipsRow k r) (drop (if hasHeader then 1 else 0) (rows st))) \<and>
       (onError \<noteq> OnErrorDropRow \<longrightarrow>
          map (withoutColumn k) (rows st') = map (withoutColumn k) (rows st) \<and>
          rowsDropped st' = rowsDropped st)"
proof -
  define s :: nat where "s = (if hasHeader then 1 else 0)"
  define t where "t = rows st"
  obtain out ch dr where
    c: "coerceRows (numOfInt k) onError (drop s t) = Inr (out, ch, dr)" and
    a: "applyAction hasHeader (COERCE_NUMERIC (numOfInt k) onError) st =
       Inr \<lparr>rows = take s t @ out, rowsChanged = rowsChanged st + ch, rowsDropped = rowsDropped st + dr\<rparr>"
    using coerce_action_result[of k onError hasHeader st] unfolding s_def t_def by blast
  obtain out' ch' dr' where
    c': "coerceRows (numOfInt k) onError (drop s t) = Inr (out', ch', dr')" and
    p1: "subseq (map (withoutColumn k) out') (map (withoutColumn k) (drop s t))" and
    p2: "subseq (filter (skipsRow k) (drop s t)) out'" and
    p3: "ch' + dr' \<le> length (filter (\<lambda>r. \<not> skipsRow k r) (drop s t))" and
    p4: "onError \<noteq> OnErrorDropRow \<longrightarrow> dr' = 0 \<and> map (withoutColumn k) out' = map (withoutColumn k) (drop s t)"
    using coerceRows_numOfInt[of k onError "drop s t"] by blast
  have eq: "out' = out" "ch' = ch" "dr' = dr" using c c' by auto
  have e: "drop s t = [] \<longrightarrow> out = []" using c by auto
  have t1: "take s (take s t @ out) = take s t" and d1: "drop s (take s t @ out) = out"
    using take_drop_data[OF e] by auto
  have split: "map (withoutColumn k) t = map (withoutColumn k) (take s t) @ map (withoutColumn k) (drop s t)"
    by (metis append_take_drop_id map_append)
  have q1: "subseq (map (withoutColumn k) (take s t @ out)) (map (withoutColumn k) t)"
    using p1 eq by (simp add: split subseq_append')
  have q4: "onError \<noteq> OnErrorDropRow \<longrightarrow>
          map (withoutColumn k) (take s t @ out) = map (withoutColumn k) t \<and> dr = 0"
    using p4 eq by (simp add: split)
  show ?thesis
    unfolding a s_def[symmetric] t_def[symmetric]
    using t1 d1 q1 q4 p2 p3 eq by simp
qed

text \<open>
  An instance: the header is kept although its cell is no number, the blank cell of the
  second row is skipped, and the third row is rewritten in column 1 only.
\<close>

theorem coerce_numeric_frame_witness:
  "applyAction True (COERCE_NUMERIC (numOfInt 1) SetZero)
     \<lparr>rows = [[lit ''id'', lit ''age''], [lit ''a'', lit '' ''], [lit ''b'', lit ''x'']],
      rowsChanged = 0, rowsDropped = 0\<rparr>
     = Inr \<lparr>rows = [[lit ''id'', lit ''age''], [lit ''a'', lit '' ''], [lit ''b'', lit ''0'']],
            rowsChanged = 1, rowsDropped = 0\<rparr> \<and>
   SetZero \<noteq> OnErrorDropRow \<and>
   map (withoutColumn 1) [[lit ''id'', lit ''age''], [lit ''a'', lit '' ''], [lit ''b'', lit ''0'']]
     = map (withoutColumn 1) [[lit ''id'', lit ''age''], [lit ''a'', lit '' ''], [lit ''b'', lit ''x'']]"
proof -
  have e: "applyAction True (COERCE_NUMERIC (numOfInt 1) SetZero)
     \<lparr>rows = [[lit ''id'', lit ''age''], [lit ''a'', lit '' ''], [lit ''b'', lit ''x'']],
      rowsChanged = 0, rowsDropped = 0\<rparr>
     = Inr \<lparr>rows = [[lit ''id'', lit ''age''], [lit ''a'', lit '' ''], [lit ''b'', lit ''0'']],
            rowsChanged = 1, rowsDropped = 0\<rparr>"
    by code_simp
  show ?thesis
    using coerce_numeric_frame[where hasHeader = True and k = 1 and onError = SetZero and st =
      "\<lparr>rows = [[lit ''id'', lit ''age''], [lit ''a'', lit '' ''], [lit ''b'', lit ''x'']],
        rowsChanged = 0, rowsDropped = 0\<rparr>"]
    unfolding e by simp
qed

text \<open>
  C8. COERCE_NUMERIC with \<open>onError = set-zero\<close> on an integer column \<open>k\<close> returns, drops no
  row, and leaves no data row (a row at or after the data-start index) in which column
  \<open>k\<close> is in bounds with a non-empty value that \<open>Number\<close> does not accept: such a cell is
  blank and was skipped, or parsed and holds its own or its canonical text, or is \<open>0\<close>.
\<close>

theorem coerce_set_zero_leaves_numeric:
  "case applyAction hasHeader (COERCE_NUMERIC (numOfInt k) SetZero) st of
     Inl err \<Rightarrow> False
   | Inr st' \<Rightarrow>
       length (rows st') = length (rows st) \<and>
       (\<forall>r \<in> set (drop (if hasHeader then 1 else 0) (rows st')).
          0 \<le> k \<and> nat k < length r \<longrightarrow>
            \<not> (r ! nat k \<noteq> [] \<and> isNaN (jsNumber (r ! nat k))))"
proof -
  define s :: nat where "s = (if hasHeader then 1 else 0)"
  define t where "t = rows st"
  obtain out ch dr where
    c: "coerceRows (numOfInt k) SetZero (drop s t) = Inr (out, ch, dr)" and
    a: "applyAction hasHeader (COERCE_NUMERIC (numOfInt k) SetZero) st =
       Inr \<lparr>rows = take s t @ out, rowsChanged = rowsChanged st + ch, rowsDropped = rowsDropped st + dr\<rparr>"
    using coerce_action_result[of k SetZero hasHeader st] unfolding s_def t_def by blast
  have p: "length out = length (drop s t)"
    "\<forall>r \<in> set out. 0 \<le> k \<and> nat k < length r \<longrightarrow> jsNumber (r ! nat k) \<noteq> NaN"
    using coerceRows_setzero[OF c] by auto
  have e: "drop s t = [] \<longrightarrow> out = []" using c by auto
  have d1: "drop s (take s t @ out) = out" using take_drop_data[OF e] by auto
  have l: "length (take s t @ out) = length t" using p(1) by simp
  show ?thesis
    unfolding a s_def[symmetric] t_def[symmetric]
    using d1 l p(2) by (simp add: isNaN_def)
qed

text \<open>An instance: \<open>n/a\<close> and \<open>1,5\<close> are no numbers and become \<open>0\<close>.\<close>

theorem coerce_set_zero_leaves_numeric_witness:
  "applyAction True (COERCE_NUMERIC (numOfInt 1) SetZero)
     \<lparr>rows = [[lit ''id'', lit ''age''], [lit ''a'', lit ''n/a''], [lit ''b'', lit ''1,5'']],
      rowsChanged = 0, rowsDropped = 0\<rparr>
     = Inr \<lparr>rows = [[lit ''id'', lit ''age''], [lit ''a'', lit ''0''], [lit ''b'', lit ''0'']],
            rowsChanged = 2, rowsDropped = 0\<rparr> \<and>
   [lit ''a'', lit ''0''] \<in> set (drop 1 [[lit ''id'', lit ''age''], [lit ''a'', lit ''0''], [lit ''b'', lit ''0'']]) \<and>
   nat 1 < length [lit ''a'', lit ''0''] \<and>
   \<not> isNaN (jsNumber ([lit ''a'', lit ''0''] ! nat 1))"
proof -
  have e: "applyAction True (COERCE_NUMERIC (numOfInt 1) SetZero)
     \<lparr>rows = [[lit ''id'', lit ''age''], [lit ''a'', lit ''n/a''], [lit ''b'', lit ''1,5'']],
      rowsChanged = 0, rowsDropped = 0\<rparr>
     = Inr \<lparr>rows = [[lit ''id'', lit ''age''], [lit ''a'', lit ''0''], [lit ''b'', lit ''0'']],
            rowsChanged = 2, rowsDropped = 0\<rparr>"
    by code_simp
  have z: "lit ''0'' \<noteq> []" by (simp add: lit_def)
  show ?thesis
    using coerce_set_zero_leaves_numeric[where hasHeader = True and k = 1 and st =
      "\<lparr>rows = [[lit ''id'', lit ''age''], [lit ''a'', lit ''n/a''], [lit ''b'', lit ''1,5'']],
        rowsChanged = 0, rowsDropped = 0\<rparr>"] z
    unfolding e by simp
qed

text \<open>
  C6, as the specification states it: the parse accepts a standard decimal literal and
  nothing else, so a cell with a leading \<open>+\<close> fails to parse and \<open>onError\<close> applies. The
  code parses with \<open>Number\<close>, which accepts a sign: the cell \<open>+5\<close> under drop-row is not
  dropped but rewritten to \<open>5\<close>.
\<close>

theorem coerce_numeric_leading_plus_counterexample:
  "trim (lit ''+5'') = 0x2B # lit ''5'' \<and>
   applyActions [[lit ''+5'']] [COERCE_NUMERIC (numOfInt 0) OnErrorDropRow] False =
     Inr \<lparr>rows = [[lit ''5'']], rowsChanged = 1, rowsDropped = 0\<rparr> \<and>
   applyActions [[lit ''+5'']] [COERCE_NUMERIC (numOfInt 0) OnErrorDropRow] False \<noteq>
     Inr \<lparr>rows = [], rowsChanged = 0, rowsDropped = 1\<rparr>"
  by code_simp

text \<open>
  C6, amended: the one rule is that of \<open>Number\<close> on the trimmed text, and it is a grammar.
  A numeric text is an optional sign \<open>+\<close> or \<open>-\<close> and then \<open>Infinity\<close> or decimal digits
  with an optional fraction and an optional exponent, at least one digit before or after
  the point (so \<open>5\<close>, \<open>5.\<close>, \<open>.5\<close> and \<open>1.5e3\<close>); or, without sign, \<open>0x\<close>, \<open>0o\<close> or \<open>0b\<close>
  with digits of base 16, 8 or 2. For every table, header flag, integer column and mode
  the action is the rule of the specification with this grammar as the parse: a data row
  whose cell is out of bounds or blank stays; a cell whose trimmed text is numeric
  becomes the canonical text of its number; for every other cell \<open>onError\<close> applies. The
  parse of a non-blank text fails exactly when the trimmed text is outside the grammar.
  A text with a leading \<open>+\<close> is numeric exactly when the rest is an unsigned decimal
  text, and then the row is kept in every mode, the cell is rewritten and the row counts
  as changed. A numeric text holds only ASCII digits and letters, signs and the point: a
  text with a comma, as a thousands separator or a decimal comma, is rejected.
\<close>

theorem coerce_numeric_number_rule:
  "applyAction hasHeader (COERCE_NUMERIC (numOfInt k) onError) st =
     Inr \<lparr>rows = take (if hasHeader then 1 else 0) (rows st) @
                   concat (map (coerceRule k onError) (drop (if hasHeader then 1 else 0) (rows st))),
          rowsChanged = rowsChanged st +
            length (filter (coerceRuleChanged k onError) (drop (if hasHeader then 1 else 0) (rows st))),
          rowsDropped = rowsDropped st +
            length (filter (coerceRuleDropped k onError) (drop (if hasHeader then 1 else 0) (rows st)))\<rparr> \<and>
   (isNaN (jsNumber (trim v)) \<longleftrightarrow> trim v \<noteq> [] \<and> \<not> numericText (trim v)) \<and>
   (numericText (0x2B # u) \<longleftrightarrow> unsignedDecimalText u) \<and>
   (\<not> skipsRow k r \<and> trim (r ! nat k) = 0x2B # u \<and> unsignedDecimalText u \<longrightarrow>
      coerceRule k onError r = [r[nat k := jsToString (jsNumber (0x2B # u))]] \<and>
      coerceRuleChanged k onError r \<and> \<not> coerceRuleDropped k onError r) \<and>
   (numericText t \<longrightarrow> list_all numericChar t) \<and>
   (0x2C \<in> set s \<longrightarrow> \<not> numericText s)"
proof (intro conjI impI)
  show "applyAction hasHeader (COERCE_NUMERIC (numOfInt k) onError) st =
     Inr \<lparr>rows = take (if hasHeader then 1 else 0) (rows st) @
                   concat (map (coerceRule k onError) (drop (if hasHeader then 1 else 0) (rows st))),
          rowsChanged = rowsChanged st +
            length (filter (coerceRuleChanged k onError) (drop (if hasHeader then 1 else 0) (rows st))),
          rowsDropped = rowsDropped st +
            length (filter (coerceRuleDropped k onError) (drop (if hasHeader then 1 else 0) (rows st)))\<rparr>"
    by (rule coerce_action_rule)
  show "isNaN (jsNumber (trim v)) \<longleftrightarrow> trim v \<noteq> [] \<and> \<not> numericText (trim v)"
    using jsNumber_numericText[of "trim v"] by simp
  show "numericText (0x2B # u) \<longleftrightarrow> unsignedDecimalText u" by (rule numericText_plus)
  show "numericText t \<Longrightarrow> list_all numericChar t" by (rule numericText_chars)
  show "0x2C \<in> set s \<Longrightarrow> \<not> numericText s" by (rule numericText_comma)
next
  assume a: "\<not> skipsRow k r \<and> trim (r ! nat k) = 0x2B # u \<and> unsignedDecimalText u"
  show "coerceRule k onError r = [r[nat k := jsToString (jsNumber (0x2B # u))]]"
    using a coerceRule_plus(1) by blast
  show "coerceRuleChanged k onError r" using a coerceRule_plus(2) by blast
  show "\<not> coerceRuleDropped k onError r" using a coerceRule_plus(3) by blast
qed

text \<open>
  An instance, with a header, column 1 and drop-row. The header cell \<open>+7\<close> is left alone;
  \<open>+5\<close> between blanks, \<open>.5\<close> and \<open>0x1F\<close> are numbers and are rewritten; the empty cell and
  \<open>12\<close> stay; \<open>1,000\<close>, \<open>n/a\<close> and \<open>+0x1F\<close> are no numbers and their rows are removed.
\<close>

theorem coerce_numeric_number_rule_witness:
  "applyAction True (COERCE_NUMERIC (numOfInt 1) OnErrorDropRow)
     \<lparr>rows = [[lit ''name'', lit ''+7''], [lit ''a'', lit '' +5 ''], [lit ''b'', lit ''1,000''],
              [lit ''c'', lit ''.5''], [lit ''d'', lit ''n/a''], [lit ''e'', lit ''0x1F''],
              [lit ''f'', []], [lit ''g'', lit ''12''], [lit ''h'', lit ''+0x1F'']],
      rowsChanged = 0, rowsDropped = 0\<rparr> =
     Inr \<lparr>rows = [[lit ''name'', lit ''+7''], [lit ''a'', lit ''5''], [lit ''c'', lit ''0.5''],
                  [lit ''e'', lit ''31''], [lit ''f'', []], [lit ''g'', lit ''12'']],
          rowsChanged = 3, rowsDropped = 3\<rparr> \<and>
   concat (map (coerceRule 1 OnErrorDropRow)
     [[lit ''a'', lit '' +5 ''], [lit ''b'', lit ''1,000''],
      [lit ''c'', lit ''.5''], [lit ''d'', lit ''n/a''], [lit ''e'', lit ''0x1F''],
      [lit ''f'', []], [lit ''g'', lit ''12''], [lit ''h'', lit ''+0x1F'']]) =
     [[lit ''a'', lit ''5''], [lit ''c'', lit ''0.5''],
      [lit ''e'', lit ''31''], [lit ''f'', []], [lit ''g'', lit ''12'']] \<and>
   length (filter (coerceRuleChanged 1 OnErrorDropRow)
     [[lit ''a'', lit '' +5 ''], [lit ''b'', lit ''1,000''],
      [lit ''c'', lit ''.5''], [lit ''d'', lit ''n/a''], [lit ''e'', lit ''0x1F''],
      [lit ''f'', []], [lit ''g'', lit ''12''], [lit ''h'', lit ''+0x1F'']]) = 3 \<and>
   length (filter (coerceRuleDropped 1 OnErrorDropRow)
     [[lit ''a'', lit '' +5 ''], [lit ''b'', lit ''1,000''],
      [lit ''c'', lit ''.5''], [lit ''d'', lit ''n/a''], [lit ''e'', lit ''0x1F''],
      [lit ''f'', []], [lit ''g'', lit ''12''], [lit ''h'', lit ''+0x1F'']]) = 3 \<and>
   \<not> isNaN (jsNumber (trim (lit '' +5 ''))) \<and>
   trim (lit '' +5 '') \<noteq> [] \<and> numericText (trim (lit '' +5 '')) \<and>
   numericText (0x2B # lit ''5'') \<and> unsignedDecimalText (lit ''5'') \<and>
   \<not> skipsRow 1 [lit ''a'', lit '' +5 ''] \<and>
   trim ([lit ''a'', lit '' +5 ''] ! nat 1) = 0x2B # lit ''5'' \<and>
   coerceRule 1 OnErrorDropRow [lit ''a'', lit '' +5 ''] = [[lit ''a'', lit ''5'']] \<and>
   coerceRuleChanged 1 OnErrorDropRow [lit ''a'', lit '' +5 ''] \<and>
   \<not> coerceRuleDropped 1 OnErrorDropRow [lit ''a'', lit '' +5 ''] \<and>
   list_all numericChar (0x2B # lit ''5'') \<and>
   0x2C \<in> set (lit ''1,000'') \<and> \<not> numericText (lit ''1,000'')"
proof -
  note rule = coerce_numeric_number_rule[where hasHeader = True and k = 1 and onError = OnErrorDropRow
      and st = "\<lparr>rows = [[lit ''name'', lit ''+7''], [lit ''a'', lit '' +5 ''], [lit ''b'', lit ''1,000''],
              [lit ''c'', lit ''.5''], [lit ''d'', lit ''n/a''], [lit ''e'', lit ''0x1F''],
              [lit ''f'', []], [lit ''g'', lit ''12''], [lit ''h'', lit ''+0x1F'']],
      rowsChanged = 0, rowsDropped = 0\<rparr>"
      and v = "lit '' +5 ''" and u = "lit ''5''" and r = "[lit ''a'', lit '' +5 '']"
      and t = "0x2B # lit ''5''" and s = "lit ''1,000''"]
  have e: "applyAction True (COERCE_NUMERIC (numOfInt 1) OnErrorDropRow)
     \<lparr>rows = [[lit ''name'', lit ''+7''], [lit ''a'', lit '' +5 ''], [lit ''b'', lit ''1,000''],
              [lit ''c'', lit ''.5''], [lit ''d'', lit ''n/a''], [lit ''e'', lit ''0x1F''],
              [lit ''f'', []], [lit ''g'', lit ''12''], [lit ''h'', lit ''+0x1F'']],
      rowsChanged = 0, rowsDropped = 0\<rparr> =
     Inr \<lparr>rows = [[lit ''name'', lit ''+7''], [lit ''a'', lit ''5''], [lit ''c'', lit ''0.5''],
                  [lit ''e'', lit ''31''], [lit ''f'', []], [lit ''g'', lit ''12'']],
          rowsChanged = 3, rowsDropped = 3\<rparr>"
    by code_simp
  have tk: "take (if True then 1 else 0) (rows \<lparr>rows = [[lit ''name'', lit ''+7''], [lit ''a'', lit '' +5 ''], [lit ''b'', lit ''1,000''],
              [lit ''c'', lit ''.5''], [lit ''d'', lit ''n/a''], [lit ''e'', lit ''0x1F''],
              [lit ''f'', []], [lit ''g'', lit ''12''], [lit ''h'', lit ''+0x1F'']],
      rowsChanged = 0, rowsDropped = 0\<rparr>) = [[lit ''name'', lit ''+7'']]"
    by simp
  have dr: "drop (if True then 1 else 0) (rows \<lparr>rows = [[lit ''name'', lit ''+7''], [lit ''a'', lit '' +5 ''], [lit ''b'', lit ''1,000''],
              [lit ''c'', lit ''.5''], [lit ''d'', lit ''n/a''], [lit ''e'', lit ''0x1F''],
              [lit ''f'', []], [lit ''g'', lit ''12''], [lit ''h'', lit ''+0x1F'']],
      rowsChanged = 0, rowsDropped = 0\<rparr>) =
     [[lit ''a'', lit '' +5 ''], [lit ''b'', lit ''1,000''],
      [lit ''c'', lit ''.5''], [lit ''d'', lit ''n/a''], [lit ''e'', lit ''0x1F''],
      [lit ''f'', []], [lit ''g'', lit ''12''], [lit ''h'', lit ''+0x1F'']]"
    by simp
  have rc: "rowsChanged \<lparr>rows = [[lit ''name'', lit ''+7''], [lit ''a'', lit '' +5 ''], [lit ''b'', lit ''1,000''],
              [lit ''c'', lit ''.5''], [lit ''d'', lit ''n/a''], [lit ''e'', lit ''0x1F''],
              [lit ''f'', []], [lit ''g'', lit ''12''], [lit ''h'', lit ''+0x1F'']],
      rowsChanged = 0, rowsDropped = 0\<rparr> = 0" "rowsDropped \<lparr>rows = [[lit ''name'', lit ''+7''], [lit ''a'', lit '' +5 ''], [lit ''b'', lit ''1,000''],
              [lit ''c'', lit ''.5''], [lit ''d'', lit ''n/a''], [lit ''e'', lit ''0x1F''],
              [lit ''f'', []], [lit ''g'', lit ''12''], [lit ''h'', lit ''+0x1F'']],
      rowsChanged = 0, rowsDropped = 0\<rparr> = 0"
    by simp_all
  have tb: "concat (map (coerceRule 1 OnErrorDropRow)
     [[lit ''a'', lit '' +5 ''], [lit ''b'', lit ''1,000''],
      [lit ''c'', lit ''.5''], [lit ''d'', lit ''n/a''], [lit ''e'', lit ''0x1F''],
      [lit ''f'', []], [lit ''g'', lit ''12''], [lit ''h'', lit ''+0x1F'']]) =
     [[lit ''a'', lit ''5''], [lit ''c'', lit ''0.5''],
      [lit ''e'', lit ''31''], [lit ''f'', []], [lit ''g'', lit ''12'']] \<and>
   length (filter (coerceRuleChanged 1 OnErrorDropRow)
     [[lit ''a'', lit '' +5 ''], [lit ''b'', lit ''1,000''],
      [lit ''c'', lit ''.5''], [lit ''d'', lit ''n/a''], [lit ''e'', lit ''0x1F''],
      [lit ''f'', []], [lit ''g'', lit ''12''], [lit ''h'', lit ''+0x1F'']]) = 3 \<and>
   length (filter (coerceRuleDropped 1 OnErrorDropRow)
     [[lit ''a'', lit '' +5 ''], [lit ''b'', lit ''1,000''],
      [lit ''c'', lit ''.5''], [lit ''d'', lit ''n/a''], [lit ''e'', lit ''0x1F''],
      [lit ''f'', []], [lit ''g'', lit ''12''], [lit ''h'', lit ''+0x1F'']]) = 3"
    using trans[OF sym, OF rule[THEN conjunct1] e] unfolding tk dr rc
    by (simp only: sum.inject applyActionsResult.iffs append.simps list.inject add_0 simp_thms)
  have n: "\<not> isNaN (jsNumber (trim (lit '' +5 '')))" by code_simp
  have tr: "trim (lit '' +5 '') = 0x2B # lit ''5''" by code_simp
  have ne: "trim (lit '' +5 '') \<noteq> []" using tr by simp
  have nt: "numericText (trim (lit '' +5 ''))"
    using rule[THEN conjunct2, THEN conjunct1] n ne by blast
  have np: "numericText (0x2B # lit ''5'')" using nt tr by simp
  have us: "unsignedDecimalText (lit ''5'')"
    using rule[THEN conjunct2, THEN conjunct2, THEN conjunct1] np by blast
  have sk: "\<not> skipsRow 1 [lit ''a'', lit '' +5 '']" by code_simp
  have tc: "trim ([lit ''a'', lit '' +5 ''] ! nat 1) = 0x2B # lit ''5''" by code_simp
  have cv: "[lit ''a'', lit '' +5 ''][nat 1 := jsToString (jsNumber (0x2B # lit ''5''))] = [lit ''a'', lit ''5'']"
    by code_simp
  have pl: "coerceRule 1 OnErrorDropRow [lit ''a'', lit '' +5 ''] =
              [[lit ''a'', lit '' +5 ''][nat 1 := jsToString (jsNumber (0x2B # lit ''5''))]] \<and>
            coerceRuleChanged 1 OnErrorDropRow [lit ''a'', lit '' +5 ''] \<and>
            \<not> coerceRuleDropped 1 OnErrorDropRow [lit ''a'', lit '' +5 '']"
    using rule[THEN conjunct2, THEN conjunct2, THEN conjunct2, THEN conjunct1] sk tc us by blast
  have ch: "list_all numericChar (0x2B # lit ''5'')"
    using rule[THEN conjunct2, THEN conjunct2, THEN conjunct2, THEN conjunct2, THEN conjunct1] np
    by blast
  have cm: "0x2C \<in> set (lit ''1,000'')" by code_simp
  have nc: "\<not> numericText (lit ''1,000'')"
    using rule[THEN conjunct2, THEN conjunct2, THEN conjunct2, THEN conjunct2, THEN conjunct2] cm
    by blast
  show ?thesis
    using e tb n ne nt np us sk tc pl cv ch cm nc by (simp only: simp_thms)
qed

text \<open>
  C1, as the specification states it: a second run of the fixed plan on the result of a
  first run changes nothing. Two tables on which it does. The row \<open>7\<close> under the header
  \<open>id,name\<close> is padded by the first run to \<open>7,\<close>, a row whose cells after the first are
  empty, and the second run removes it. The cell \<open>""a""\<close> loses one pair of quotes in each
  run.
\<close>

theorem preClean_second_run_counterexample:
  "applyActions [[lit ''id'', lit ''name''], [lit ''7'']] preCleanActions True =
     Inr \<lparr>rows = [[lit ''id'', lit ''name''], [lit ''7'', []]], rowsChanged = 1, rowsDropped = 0\<rparr> \<and>
   applyActions [[lit ''id'', lit ''name''], [lit ''7'', []]] preCleanActions True =
     Inr \<lparr>rows = [[lit ''id'', lit ''name'']], rowsChanged = 0, rowsDropped = 1\<rparr> \<and>
   applyActions [[lit ''id'', lit ''name''], [lit ''7'', 0x22 # 0x22 # lit ''a'' @ [0x22, 0x22]]]
       preCleanActions True =
     Inr \<lparr>rows = [[lit ''id'', lit ''name''], [lit ''7'', 0x22 # lit ''a'' @ [0x22]]],
          rowsChanged = 1, rowsDropped = 0\<rparr> \<and>
   applyActions [[lit ''id'', lit ''name''], [lit ''7'', 0x22 # lit ''a'' @ [0x22]]]
       preCleanActions True =
     Inr \<lparr>rows = [[lit ''id'', lit ''name''], [lit ''7'', lit ''a'']],
          rowsChanged = 1, rowsDropped = 0\<rparr>"
  by code_simp

text \<open>
  C1, amended: the first run always returns, and the second run returns the table of the
  first with both counters 0 exactly when that table has no cell still wrapped in double
  quotes and no data row that REMOVE_EMPTY_ROWS removes.
\<close>

theorem preClean_second_run:
  "\<exists>first. applyActions t preCleanActions hasHeader = Inr first \<and>
     (applyActions (rows first) preCleanActions hasHeader
        = Inr \<lparr>rows = rows first, rowsChanged = 0, rowsDropped = 0\<rparr>
      \<longleftrightarrow> noWrappedCell (rows first) \<and> noEmptyDataRow hasHeader (rows first))"
proof -
  obtain first where f: "applyActions t preCleanActions hasHeader = Inr first"
    unfolding preClean_run by simp
  have t: "trimmedCells (rows first)" by (rule preClean_rows_trimmed[OF f])
  obtain n where n: "\<forall>r\<in>set (rows first). length r = n"
    using preClean_rows_length[OF f] by auto
  show ?thesis
    using f preClean_settled[OF t n] preClean_unsettled[OF t] by blast
qed

text \<open>
  An instance, the scenario of the specification: the text of four lines
  \<open>ID,Name,Age\<close>, \<open>1, John ,25\<close>, \<open>2,"Anna",\<close> and \<open>,, \<close>, with a header.
\<close>

theorem preClean_second_run_witness:
  "applyActions
     [[lit ''ID'', lit ''Name'', lit ''Age''],
      [lit ''1'', lit '' John '', lit ''25''],
      [lit ''2'', 0x22 # lit ''Anna'' @ [0x22], []],
      [[], [], lit '' '']] preCleanActions True =
     Inr \<lparr>rows = [[lit ''ID'', lit ''Name'', lit ''Age''],
                  [lit ''1'', lit ''John'', lit ''25''],
                  [lit ''2'', lit ''Anna'', []]],
          rowsChanged = 3, rowsDropped = 1\<rparr> \<and>
   noWrappedCell [[lit ''ID'', lit ''Name'', lit ''Age''],
                  [lit ''1'', lit ''John'', lit ''25''],
                  [lit ''2'', lit ''Anna'', []]] \<and>
   noEmptyDataRow True [[lit ''ID'', lit ''Name'', lit ''Age''],
                  [lit ''1'', lit ''John'', lit ''25''],
                  [lit ''2'', lit ''Anna'', []]] \<and>
   applyActions [[lit ''ID'', lit ''Name'', lit ''Age''],
                  [lit ''1'', lit ''John'', lit ''25''],
                  [lit ''2'', lit ''Anna'', []]] preCleanActions True =
     Inr \<lparr>rows = [[lit ''ID'', lit ''Name'', lit ''Age''],
                  [lit ''1'', lit ''John'', lit ''25''],
                  [lit ''2'', lit ''Anna'', []]],
          rowsChanged = 0, rowsDropped = 0\<rparr>"
proof -
  have e: "applyActions
     [[lit ''ID'', lit ''Name'', lit ''Age''],
      [lit ''1'', lit '' John '', lit ''25''],
      [lit ''2'', 0x22 # lit ''Anna'' @ [0x22], []],
      [[], [], lit '' '']] preCleanActions True =
     Inr \<lparr>rows = [[lit ''ID'', lit ''Name'', lit ''Age''],
                  [lit ''1'', lit ''John'', lit ''25''],
                  [lit ''2'', lit ''Anna'', []]],
          rowsChanged = 3, rowsDropped = 1\<rparr>"
    by code_simp
  have w: "noWrappedCell [[lit ''ID'', lit ''Name'', lit ''Age''],
                  [lit ''1'', lit ''John'', lit ''25''],
                  [lit ''2'', lit ''Anna'', []]]"
    by code_simp
  have d: "noEmptyDataRow True [[lit ''ID'', lit ''Name'', lit ''Age''],
                  [lit ''1'', lit ''John'', lit ''25''],
                  [lit ''2'', lit ''Anna'', []]]"
    by code_simp
  show ?thesis
    using preClean_second_run[where hasHeader = True and t =
      "[[lit ''ID'', lit ''Name'', lit ''Age''],
        [lit ''1'', lit '' John '', lit ''25''],
        [lit ''2'', 0x22 # lit ''Anna'' @ [0x22], []],
        [[], [], lit '' '']]"] e w d
    by auto
qed
section \<open>Properties of the sampler\<close>

text \<open>
  C9, as the specification states it: \<open>buildSample\<close> returns the first 50 lines unmodified,
  so a text of at most 50 lines comes back unchanged. The lines are joined with a single
  LF again, so a text with CR LF line ends is changed even when it is short.
\<close>

theorem buildSample_crlf_counterexample:
  "length (splitLines (lit ''a'' @ [0x0D, 0x0A] @ lit ''b'')) \<le> 50 \<and>
   buildSample (lit ''a'' @ [0x0D, 0x0A] @ lit ''b'') 50 = lit ''a'' @ [0x0A] @ lit ''b'' \<and>
   buildSample (lit ''a'' @ [0x0D, 0x0A] @ lit ''b'') 50 \<noteq> lit ''a'' @ [0x0D, 0x0A] @ lit ''b''"
  by code_simp

text \<open>
  C9, amended: \<open>buildSample\<close> returns the first 50 lines joined by LF. For a text without
  a CR LF pair the sample is an initial piece of the text, its lines are the first 50
  lines of the text, and a text of at most 50 lines is returned as it is.
\<close>

theorem buildSample_without_crlf:
  "\<not> hasCRLF csv \<Longrightarrow>
     prefix (buildSample csv 50) csv \<and>
     splitLines (buildSample csv 50) = take 50 (splitLines csv) \<and>
     (length (splitLines csv) \<le> 50 \<longrightarrow> buildSample csv 50 = csv)"
  using prefix_joinLines_take[of 50 "splitLines csv"] splitLines_joinLines_take[of csv 50]
  by (simp add: buildSample_def joinLines_splitLines)

theorem buildSample_without_crlf_witness:
  "\<not> hasCRLF (lit ''a,b'' @ [0x0A] @ lit ''1,2'' @ [0x0D]) \<and>
   length (splitLines (lit ''a,b'' @ [0x0A] @ lit ''1,2'' @ [0x0D])) \<le> 50 \<and>
   buildSample (lit ''a,b'' @ [0x0A] @ lit ''1,2'' @ [0x0D]) 50 = lit ''a,b'' @ [0x0A] @ lit ''1,2'' @ [0x0D]"
proof -
  have h: "\<not> hasCRLF (lit ''a,b'' @ [0x0A] @ lit ''1,2'' @ [0x0D])" by code_simp
  have l: "length (splitLines (lit ''a,b'' @ [0x0A] @ lit ''1,2'' @ [0x0D])) \<le> 50" by code_simp
  show ?thesis using buildSample_without_crlf[OF h] h l by blast
qed

section \<open>Properties of the normalizer\<close>

text \<open>
  C2. The specification asks that \<open>mapToCleaningActions\<close> never throws, whatever the
  candidates are, \<open>null\<close> and \<open>undefined\<close> included. The loop reads \<open>obj.type\<close> before any
  check that \<open>obj\<close> is an object, so a list that holds \<open>null\<close> (or \<open>undefined\<close>) makes the
  call throw a TypeError instead of returning fewer actions.
\<close>

theorem mapToCleaningActions_null_throws:
  "mapToCleaningActions [JNull] = Inl TypeError \<and>
   mapToCleaningActions [JObj [(lit ''type'', JStr (lit ''TRIM_WHITESPACE''))], JUndefined]
     = Inl TypeError"
  by code_simp

text \<open>
  C4, as the specification states it: \<open>mapToCleaningActions\<close> accepts the column index
  under either spelling, \<open>column_index\<close> or \<open>columnIndex\<close>. The method reads \<open>columnIndex\<close>
  only, so a candidate that carries the index as \<open>column_index\<close> is dropped by it.
\<close>

theorem normalizer_snake_case_counterexample:
  "mapToCleaningActions
     [JObj [(lit ''type'', JStr (lit ''COERCE_NUMERIC'')), (lit ''column_index'', JNum (numOfInt 2))]]
     = Inr []"
  by code_simp

text \<open>
  C4, amended: for a candidate object, \<open>mapToCleaningActions\<close> emits a COERCE_NUMERIC
  action exactly when \<open>type\<close> is the string \<open>COERCE_NUMERIC\<close> and \<open>columnIndex\<close> is a number
  (the action carries that number, and \<open>onError\<close> defaults to drop-row); with such a type
  and no numeric \<open>columnIndex\<close> the candidate is dropped, never defaulted. The spelling
  \<open>column_index\<close> is read by \<open>analyzeCsv\<close>, whose output \<open>cleanCsv\<close> passes on: the two
  together emit the action exactly when the type is right and \<open>column_index\<close> is a
  number, or else \<open>columnIndex\<close> is, and always with \<open>onError\<close> drop-row.
\<close>

theorem normalizer_coerce_numeric:
  "(mapToCleaningActions [JObj props] = Inr [COERCE_NUMERIC c onError] \<longleftrightarrow>
      map_of props (lit ''type'') = Some (JStr (lit ''COERCE_NUMERIC'')) \<and>
      map_of props (lit ''columnIndex'') = Some (JNum c) \<and>
      onError = coerceOnErrorOf (valueOr (map_of props (lit ''onError'')))) \<and>
   (map_of props (lit ''type'') = Some (JStr (lit ''COERCE_NUMERIC'')) \<and>
      \<not> isNumber (valueOr (map_of props (lit ''columnIndex''))) \<longrightarrow>
      mapToCleaningActions [JObj props] = Inr []) \<and>
   (aiCleaningActions [JObj props] = Inr [COERCE_NUMERIC c onError] \<longleftrightarrow>
      map_of props (lit ''type'') = Some (JStr (lit ''COERCE_NUMERIC'')) \<and>
      (map_of props (lit ''column_index'') = Some (JNum c) \<or>
       \<not> isNumber (valueOr (map_of props (lit ''column_index''))) \<and>
         map_of props (lit ''columnIndex'') = Some (JNum c)) \<and>
      onError = OnErrorDropRow)"
proof (intro conjI)
  show "mapToCleaningActions [JObj props] = Inr [COERCE_NUMERIC c onError] \<longleftrightarrow>
      map_of props (lit ''type'') = Some (JStr (lit ''COERCE_NUMERIC'')) \<and>
      map_of props (lit ''columnIndex'') = Some (JNum c) \<and>
      onError = coerceOnErrorOf (valueOr (map_of props (lit ''onError'')))"
    unfolding mapToCleaningActions_single
    by (simp add: pushAction_single typedCandidate_coerce eq_commute[of "[COERCE_NUMERIC c onError]"])
  show "map_of props (lit ''type'') = Some (JStr (lit ''COERCE_NUMERIC'')) \<and>
      \<not> isNumber (valueOr (map_of props (lit ''columnIndex''))) \<longrightarrow>
      mapToCleaningActions [JObj props] = Inr []"
    unfolding mapToCleaningActions_single
    by (auto simp: coerceCandidate_not_number)
  define snake where "snake = valueOr (map_of props (lit ''column_index''))"
  define camel where "camel = valueOr (map_of props (lit ''columnIndex''))"
  define ty where "ty = valueOr (map_of props (lit ''type''))"
  define picked where "picked = (if isNumber snake then snake else if isNumber camel then camel else JUndefined)"
  have a: "aiCleaningActions [JObj props] =
      mapToCleaningActions [JObj [(lit ''type'', JStr (typeText ty)), (lit ''columnIndex'', picked)]]"
    unfolding aiCleaningActions_def analyzeActions_single snake_def camel_def ty_def picked_def
    by (simp del: mapToCleaningActions.simps)
  have p: "picked = JNum c \<longleftrightarrow> snake = JNum c \<or> \<not> isNumber snake \<and> camel = JNum c"
    by (auto simp: picked_def isNumber_iff)
  have "aiCleaningActions [JObj props] = Inr [COERCE_NUMERIC c onError] \<longleftrightarrow>
      typeText ty = lit ''COERCE_NUMERIC'' \<and> picked = JNum c \<and> onError = OnErrorDropRow"
    unfolding a mapToCleaningActions_single
    by (auto simp add: pushAction_single coerceCandidate_object
          eq_commute[of "[COERCE_NUMERIC c onError]"] coerceOnErrorOf_def)
  then show "aiCleaningActions [JObj props] = Inr [COERCE_NUMERIC c onError] \<longleftrightarrow>
      map_of props (lit ''type'') = Some (JStr (lit ''COERCE_NUMERIC'')) \<and>
      (map_of props (lit ''column_index'') = Some (JNum c) \<or>
       \<not> isNumber (valueOr (map_of props (lit ''column_index''))) \<and>
         map_of props (lit ''columnIndex'') = Some (JNum c)) \<and>
      onError = OnErrorDropRow"
    unfolding p typeText_coerce by (auto simp: snake_def camel_def ty_def)
qed

theorem normalizer_coerce_numeric_witness:
  "map_of [(lit ''type'', JStr (lit ''COERCE_NUMERIC'')), (lit ''column_index'', JStr (lit ''2'')),
           (lit ''columnIndex'', JNum (numOfInt 2)), (lit ''onError'', JStr (lit ''set-zero''))]
      (lit ''type'') = Some (JStr (lit ''COERCE_NUMERIC'')) \<and>
   mapToCleaningActions
     [JObj [(lit ''type'', JStr (lit ''COERCE_NUMERIC'')), (lit ''column_index'', JStr (lit ''2'')),
            (lit ''columnIndex'', JNum (numOfInt 2)), (lit ''onError'', JStr (lit ''set-zero''))]]
     = Inr [COERCE_NUMERIC (numOfInt 2) SetZero] \<and>
   aiCleaningActions
     [JObj [(lit ''type'', JStr (lit ''COERCE_NUMERIC'')), (lit ''column_index'', JStr (lit ''2'')),
            (lit ''columnIndex'', JNum (numOfInt 2)), (lit ''onError'', JStr (lit ''set-zero''))]]
     = Inr [COERCE_NUMERIC (numOfInt 2) OnErrorDropRow]"
  using normalizer_coerce_numeric[where c = "numOfInt 2" and onError = SetZero and props =
      "[(lit ''type'', JStr (lit ''COERCE_NUMERIC'')), (lit ''column_index'', JStr (lit ''2'')),
        (lit ''columnIndex'', JNum (numOfInt 2)), (lit ''onError'', JStr (lit ''set-zero''))]"]
    normalizer_coerce_numeric[where c = "numOfInt 2" and onError = OnErrorDropRow and props =
      "[(lit ''type'', JStr (lit ''COERCE_NUMERIC'')), (lit ''column_index'', JStr (lit ''2'')),
        (lit ''columnIndex'', JNum (numOfInt 2)), (lit ''onError'', JStr (lit ''set-zero''))]"]
  by (simp add: coerceOnErrorOf_def)

end
